theory Spec2Isabelle
  imports Main
begin

section \<open>Data model of server.js\<close>

text \<open>
  The server keeps two pieces of process-wide state: the map \<^verbatim>\<open>sessions\<close> from a session
  key to a protocol client, and the flag \<^verbatim>\<open>commentingActive\<close>. Every handler talks to the
  remote messaging platform through the client; the platform is not part of the repository, so
  it is a parameter of the model: a record of functions over an arbitrary world state, each
  returning what the call returns or the message of the error it throws. The world state is
  unconstrained, so it can hold whatever else happens between two calls.

  Request bodies are modelled at the types the handlers expect: links are lists of strings,
  subscriber bounds and the interval are integers, identifiers are strings. The keywords
  field of a search request is any JSON value, since the handler tests it before using it.
  The health and disconnect routes and the shutdown hook are not modelled.
\<close>

text \<open>A call that may throw: \<open>Inl\<close> carries \<^verbatim>\<open>err.message\<close>, \<open>Inr\<close> the returned value.\<close>

type_synonym 'a outcome = "string + 'a"

text \<open>The two properties of a \<^verbatim>\<open>TelegramClient\<close> the handlers read:
  \<^verbatim>\<open>client.connected\<close> and \<^verbatim>\<open>client.session.save()\<close>.\<close>

record tclient =
  connected :: bool
  session :: string

datatype entity = Entity string

record message =
  msg_id :: int

text \<open>A chat of \<^verbatim>\<open>result.chats\<close>. \<open>chat_id\<close> is \<^verbatim>\<open>chat.id.toString()\<close>: the
  identifier is represented by its decimal text, which determines it.\<close>

record chat =
  className :: string
  megagroup :: bool
  chat_id :: string
  title :: string
  chat_username :: "string option"
  chat_verified :: bool

record chat_flags =
  noComments :: bool

text \<open>\<^verbatim>\<open>fullChannel.fullChat\<close>; a field that may be absent is an option.\<close>

record fullChat =
  participantsCount :: "int option"
  about :: "string option"
  flags :: "chat_flags option"

text \<open>The calls made on the client and the timers started, in the order they are issued.\<close>

datatype event =
    EvConnect
  | EvSendCode string string string
  | EvSignInUser string string string string string
  | EvSearch string nat
  | EvGetFullChannel string
  | EvGetEntity string
  | EvJoinChannel entity
  | EvGetMessages entity nat
  | EvSendMessage entity string int
  | EvSleep int

text \<open>The remote platform and the clock. \<open>'w\<close> is the state of the world outside the
  process; \<open>p_elapse\<close> is what a \<^verbatim>\<open>setTimeout\<close> delay of the given milliseconds does to it.\<close>

record 'w protocol =
  p_connect :: "'w \<Rightarrow> tclient \<Rightarrow> unit outcome \<times> tclient \<times> 'w"
  p_sendCode :: "'w \<Rightarrow> tclient \<Rightarrow> string \<Rightarrow> string \<Rightarrow> string \<Rightarrow> unit outcome \<times> tclient \<times> 'w"
  p_signInUser :: "'w \<Rightarrow> tclient \<Rightarrow> string \<Rightarrow> string \<Rightarrow> string \<Rightarrow> string \<Rightarrow> string
                     \<Rightarrow> unit outcome \<times> tclient \<times> 'w"
  p_search :: "'w \<Rightarrow> tclient \<Rightarrow> string \<Rightarrow> nat \<Rightarrow> chat list outcome \<times> 'w"
  p_getFullChannel :: "'w \<Rightarrow> tclient \<Rightarrow> chat \<Rightarrow> fullChat outcome \<times> 'w"
  p_getEntity :: "'w \<Rightarrow> tclient \<Rightarrow> string \<Rightarrow> entity outcome \<times> 'w"
  p_joinChannel :: "'w \<Rightarrow> tclient \<Rightarrow> entity \<Rightarrow> unit outcome \<times> 'w"
  p_getMessages :: "'w \<Rightarrow> tclient \<Rightarrow> entity \<Rightarrow> nat \<Rightarrow> message list outcome \<times> 'w"
  p_sendMessage :: "'w \<Rightarrow> tclient \<Rightarrow> entity \<Rightarrow> string \<Rightarrow> int \<Rightarrow> unit outcome \<times> 'w"
  p_elapse :: "'w \<Rightarrow> int \<Rightarrow> 'w"

text \<open>The world together with the trace of events issued so far.\<close>

type_synonym 'w io = "'w \<times> event list"

definition issue :: "event \<Rightarrow> 'w io \<Rightarrow> 'w io" where
  "issue e io = (fst io, snd io @ [e])"

text \<open>\<^verbatim>\<open>await new Promise(resolve => setTimeout(resolve, ms))\<close>\<close>

definition sleep :: "'w protocol \<Rightarrow> int \<Rightarrow> 'w io \<Rightarrow> 'w io" where
  "sleep P ms io = (p_elapse P (fst io) ms, snd io @ [EvSleep ms])"

text \<open>An entry of \<^verbatim>\<open>allChannels\<close>.\<close>

record channel_entry =
  ce_id :: string
  ce_name :: string
  ce_username :: "string option"
  ce_subscribers :: int
  ce_description :: string
  ce_verified :: bool
  ce_keyword :: string
  ce_hasComments :: bool

text \<open>An entry of \<^verbatim>\<open>results\<close> in the subscribe handler. The object pushed on success has
  the keys channel, username, success, message; the one pushed in the catch block has the keys
  channel, success, error. A key that the object does not have is \<open>None\<close>.\<close>

record sub_result =
  sr_channel :: string
  sr_username :: "string option"
  sr_success :: bool
  sr_message :: "string option"
  sr_error :: "string option"

text \<open>Where a background comment loop is suspended: the \<^verbatim>\<open>await\<close> whose result it waits
  for, with the link being processed and the links left in the current pass.\<close>

datatype pc =
    AwaitEntity string "string list"
  | AwaitMessages string entity "string list"
  | AwaitSend string entity int "string list"
  | AwaitSleep "string list"
  | Done

text \<open>A background loop started by \<^verbatim>\<open>POST /api/comment\<close>: the variables its closure
  captures and its suspension point.\<close>

record loop =
  l_client :: tclient
  l_links :: "string list"
  l_text :: string
  l_interval :: int
  l_pc :: pc

record 'w server =
  sessions :: "string \<rightharpoonup> tclient"
  commentingActive :: bool
  loops :: "loop list"
  env :: "'w io"

text \<open>What a handler sends: \<^verbatim>\<open>res.status(n).json({error: ...})\<close> or the fields of the
  object given to \<^verbatim>\<open>res.json\<close>, in the order the source writes them.\<close>

datatype response =
    Error nat string
  | CodeSent bool bool string
  | PasswordNeeded bool bool string
  | ConnectOk bool string string
  | SearchOk bool "channel_entry list" nat
  | SubscribeOk bool "sub_result list" nat nat
  | CommentOk bool string int nat
  | StopOk bool string

text \<open>\<^verbatim>\<open>`${phoneNumber}_${apiId}`\<close>\<close>

definition sessionKey :: "string \<Rightarrow> string \<Rightarrow> string" where
  "sessionKey phoneNumber apiId = phoneNumber @ ''_'' @ apiId"

definition initial :: "'w \<Rightarrow> 'w server" where
  "initial w = \<lparr>sessions = Map.empty, commentingActive = False, loops = [], env = (w, [])\<rparr>"

section \<open>POST /api/stop-commenting\<close>

definition stop_commenting :: "'w server \<Rightarrow> response \<times> 'w server" where
  "stop_commenting s = (StopOk True ''Commenting stopped'', s\<lparr>commentingActive := False\<rparr>)"

section \<open>POST /api/subscribe\<close>

fun starts_with :: "string \<Rightarrow> string \<Rightarrow> bool" where
  "starts_with [] s = True"
| "starts_with (p # ps) [] = False"
| "starts_with (p # ps) (c # cs) = (p = c \<and> starts_with ps cs)"

text \<open>\<^verbatim>\<open>s.replace(pat, rep)\<close> with a string pattern: only the first occurrence is replaced
  (the replacements used by the server contain no \<^verbatim>\<open>$\<close>).\<close>

fun replace :: "string \<Rightarrow> string \<Rightarrow> string \<Rightarrow> string" where
  "replace [] pat rep = (if pat = [] then rep else [])"
| "replace (c # cs) pat rep =
     (if starts_with pat (c # cs) then rep @ drop (length pat) (c # cs)
      else c # replace cs pat rep)"

text \<open>\<^verbatim>\<open>link.replace('https://t.me/', '').replace('@', '')\<close>\<close>

definition username_of :: "string \<Rightarrow> string" where
  "username_of link = replace (replace link ''https://t.me/'' []) ''@'' []"

text \<open>\<^verbatim>\<open>await client.getEntity(username)\<close> and
  \<^verbatim>\<open>await client.invoke(new Api.channels.JoinChannel({channel}))\<close>\<close>

definition getEntity :: "'w protocol \<Rightarrow> tclient \<Rightarrow> string \<Rightarrow> 'w io \<Rightarrow> entity outcome \<times> 'w io" where
  "getEntity P client username io =
     (case p_getEntity P (fst io) client username of
        (r, w) \<Rightarrow> (r, (w, snd io @ [EvGetEntity username])))"

definition joinChannel :: "'w protocol \<Rightarrow> tclient \<Rightarrow> entity \<Rightarrow> 'w io \<Rightarrow> unit outcome \<times> 'w io" where
  "joinChannel P client channel io =
     (case p_joinChannel P (fst io) client channel of
        (r, w) \<Rightarrow> (r, (w, snd io @ [EvJoinChannel channel])))"

definition joined_entry :: "string \<Rightarrow> string \<Rightarrow> sub_result" where
  "joined_entry link username =
     \<lparr>sr_channel = link, sr_username = Some username, sr_success = True,
      sr_message = Some ''Successfully joined'', sr_error = None\<rparr>"

definition failed_entry :: "string \<Rightarrow> string \<Rightarrow> sub_result" where
  "failed_entry link err =
     \<lparr>sr_channel = link, sr_username = None, sr_success = False,
      sr_message = None, sr_error = Some err\<rparr>"

text \<open>The body of the loop over \<^verbatim>\<open>channelLinks\<close>: the try block pushes the success entry
  and then waits two seconds; an error of either call goes to the catch block, which pushes
  the failure entry.\<close>

definition subscribe_one ::
  "'w protocol \<Rightarrow> tclient \<Rightarrow> string \<Rightarrow> sub_result list \<Rightarrow> 'w io \<Rightarrow> sub_result list \<times> 'w io" where
  "subscribe_one P client link results io =
     (let username = username_of link in
      case getEntity P client username io of
        (Inl err, io1) \<Rightarrow> (results @ [failed_entry link err], io1)
      | (Inr channel, io1) \<Rightarrow>
          (case joinChannel P client channel io1 of
             (Inl err, io2) \<Rightarrow> (results @ [failed_entry link err], io2)
           | (Inr _, io2) \<Rightarrow> (results @ [joined_entry link username], sleep P 2000 io2)))"

fun subscribe_loop ::
  "'w protocol \<Rightarrow> tclient \<Rightarrow> string list \<Rightarrow> sub_result list \<Rightarrow> 'w io \<Rightarrow> sub_result list \<times> 'w io" where
  "subscribe_loop P client [] results io = (results, io)"
| "subscribe_loop P client (link # links) results io =
     (case subscribe_one P client link results io of
        (results', io') \<Rightarrow> subscribe_loop P client links results' io')"

definition subscribe ::
  "'w protocol \<Rightarrow> string list \<Rightarrow> string \<Rightarrow> string \<Rightarrow> 'w server \<Rightarrow> response \<times> 'w server" where
  "subscribe P channelLinks apiId phoneNumber s =
     (case sessions s (sessionKey phoneNumber apiId) of
        None \<Rightarrow> (Error 401 ''Not connected to Telegram'', s)
      | Some client \<Rightarrow>
          if \<not> connected client then (Error 401 ''Not connected to Telegram'', s)
          else
            (case subscribe_loop P client channelLinks [] (env s) of
               (results, io') \<Rightarrow>
                 (SubscribeOk True results
                    (length (filter (\<lambda>r. sr_success r) results))
                    (length (filter (\<lambda>r. \<not> sr_success r) results)),
                  s\<lparr>env := io'\<rparr>)))"

text \<open>Whether the join attempt for one link fails, read off the platform: resolving the
  username throws, or joining the resolved channel throws.\<close>

definition join_fails :: "'w protocol \<Rightarrow> tclient \<Rightarrow> string \<Rightarrow> 'w io \<Rightarrow> bool" where
  "join_fails P client link io =
     (case getEntity P client (username_of link) io of
        (Inl _, _) \<Rightarrow> True
      | (Inr channel, io1) \<Rightarrow>
          (case joinChannel P client channel io1 of (Inl _, _) \<Rightarrow> True | (Inr _, _) \<Rightarrow> False))"

text \<open>Position by position, which attempts of a request fail, each judged in the world the
  earlier attempts have left.\<close>

fun fail_flags :: "'w protocol \<Rightarrow> tclient \<Rightarrow> string list \<Rightarrow> 'w io \<Rightarrow> bool list" where
  "fail_flags P client [] io = []"
| "fail_flags P client (link # links) io =
     join_fails P client link io
       # fail_flags P client links (snd (subscribe_one P client link [] io))"

section \<open>POST /api/search-channels\<close>

text \<open>\<^verbatim>\<open>await client.invoke(new Api.contacts.Search({q: keyword, limit: 50}))\<close> and
  \<^verbatim>\<open>await client.invoke(new Api.channels.GetFullChannel({channel: chat}))\<close>\<close>

definition search :: "'w protocol \<Rightarrow> tclient \<Rightarrow> string \<Rightarrow> nat \<Rightarrow> 'w io \<Rightarrow> chat list outcome \<times> 'w io" where
  "search P client q limit io =
     (case p_search P (fst io) client q limit of
        (r, w) \<Rightarrow> (r, (w, snd io @ [EvSearch q limit])))"

definition getFullChannel :: "'w protocol \<Rightarrow> tclient \<Rightarrow> chat \<Rightarrow> 'w io \<Rightarrow> fullChat outcome \<times> 'w io" where
  "getFullChannel P client ch io =
     (case p_getFullChannel P (fst io) client ch of
        (r, w) \<Rightarrow> (r, (w, snd io @ [EvGetFullChannel (chat_id ch)])))"

text \<open>\<^verbatim>\<open>fullChannel.fullChat.participantsCount || 0\<close>\<close>

definition participants :: "fullChat \<Rightarrow> int" where
  "participants fc = (case participantsCount fc of None \<Rightarrow> 0 | Some n \<Rightarrow> n)"

text \<open>\<^verbatim>\<open>!fullChannel.fullChat.flags || !fullChannel.fullChat.flags.noComments\<close>\<close>

definition hasDiscussion :: "fullChat \<Rightarrow> bool" where
  "hasDiscussion fc = (case flags fc of None \<Rightarrow> True | Some f \<Rightarrow> \<not> noComments f)"

text \<open>The object pushed on \<^verbatim>\<open>allChannels\<close>; \<^verbatim>\<open>chat.username || null\<close> and
  \<^verbatim>\<open>fullChat.about || ''\<close> turn an empty string into the default as well.\<close>

definition channel_of :: "chat \<Rightarrow> fullChat \<Rightarrow> string \<Rightarrow> channel_entry" where
  "channel_of ch fc keyword =
     \<lparr>ce_id = chat_id ch,
      ce_name = title ch,
      ce_username = (case chat_username ch of None \<Rightarrow> None
                     | Some u \<Rightarrow> if u = [] then None else Some u),
      ce_subscribers = participants fc,
      ce_description = (case about fc of None \<Rightarrow> [] | Some a \<Rightarrow> a),
      ce_verified = chat_verified ch,
      ce_keyword = keyword,
      ce_hasComments = True\<rparr>"

text \<open>The body of the loop over \<^verbatim>\<open>result.chats\<close>. The subscriber bounds are numbers.
  The 100 ms delay follows the inner try statement, so it runs whether or not the metadata
  call threw; a chat that is not a channel, is a megagroup or was already accepted is passed
  over without a call.\<close>

definition process_chat ::
  "'w protocol \<Rightarrow> tclient \<Rightarrow> int \<Rightarrow> int \<Rightarrow> string \<Rightarrow> chat
     \<Rightarrow> channel_entry list \<Rightarrow> string set \<Rightarrow> 'w io \<Rightarrow> channel_entry list \<times> string set \<times> 'w io" where
  "process_chat P client minSubscribers maxSubscribers keyword ch allChannels seenIds io =
     (if className ch = ''Channel'' \<and> \<not> megagroup ch \<and> chat_id ch \<notin> seenIds then
        (case getFullChannel P client ch io of
           (Inl err, io1) \<Rightarrow> (allChannels, seenIds, sleep P 100 io1)
         | (Inr fc, io1) \<Rightarrow>
             if participants fc \<ge> minSubscribers \<and> participants fc \<le> maxSubscribers then
               (if hasDiscussion fc then
                  (allChannels @ [channel_of ch fc keyword], insert (chat_id ch) seenIds,
                   sleep P 100 io1)
                else (allChannels, seenIds, sleep P 100 io1))
             else (allChannels, seenIds, sleep P 100 io1))
      else (allChannels, seenIds, io))"

fun chats_loop ::
  "'w protocol \<Rightarrow> tclient \<Rightarrow> int \<Rightarrow> int \<Rightarrow> string \<Rightarrow> chat list
     \<Rightarrow> channel_entry list \<Rightarrow> string set \<Rightarrow> 'w io \<Rightarrow> channel_entry list \<times> string set \<times> 'w io" where
  "chats_loop P client lo hi keyword [] allChannels seenIds io = (allChannels, seenIds, io)"
| "chats_loop P client lo hi keyword (ch # chats) allChannels seenIds io =
     (case process_chat P client lo hi keyword ch allChannels seenIds io of
        (allChannels', seenIds', io') \<Rightarrow>
          chats_loop P client lo hi keyword chats allChannels' seenIds' io')"

text \<open>The body of the loop over \<^verbatim>\<open>keywords\<close>: a search that throws goes to the catch
  block of the keyword, which only logs; otherwise the chats are processed and the 500 ms
  delay follows.\<close>

definition search_keyword ::
  "'w protocol \<Rightarrow> tclient \<Rightarrow> int \<Rightarrow> int \<Rightarrow> string
     \<Rightarrow> channel_entry list \<Rightarrow> string set \<Rightarrow> 'w io \<Rightarrow> channel_entry list \<times> string set \<times> 'w io" where
  "search_keyword P client lo hi keyword allChannels seenIds io =
     (case search P client keyword 50 io of
        (Inl err, io1) \<Rightarrow> (allChannels, seenIds, io1)
      | (Inr chats, io1) \<Rightarrow>
          (case chats_loop P client lo hi keyword chats allChannels seenIds io1 of
             (allChannels', seenIds', io2) \<Rightarrow> (allChannels', seenIds', sleep P 500 io2)))"

fun keywords_loop ::
  "'w protocol \<Rightarrow> tclient \<Rightarrow> int \<Rightarrow> int \<Rightarrow> string list
     \<Rightarrow> channel_entry list \<Rightarrow> string set \<Rightarrow> 'w io \<Rightarrow> channel_entry list \<times> string set \<times> 'w io" where
  "keywords_loop P client lo hi [] allChannels seenIds io = (allChannels, seenIds, io)"
| "keywords_loop P client lo hi (keyword # keywords) allChannels seenIds io =
     (case search_keyword P client lo hi keyword allChannels seenIds io of
        (allChannels', seenIds', io') \<Rightarrow>
          keywords_loop P client lo hi keywords allChannels' seenIds' io')"

text \<open>The \<^verbatim>\<open>keywords\<close> field of the body, by what the handler does with it: a value that
  is falsy other than the empty string (the field is missing, or is null, false or 0), an
  array of strings, a string, or any other value (a non-zero number, true, an object), which
  is truthy and cannot be iterated; for such a value the flag says whether its
  \<^verbatim>\<open>length\<close> property is 0.\<close>

datatype keywords_value =
    Falsy
  | Array "string list"
  | Text string
  | NotIterable bool

text \<open>\<^verbatim>\<open>!!keywords\<close>\<close>

fun is_truthy :: "keywords_value \<Rightarrow> bool" where
  "is_truthy Falsy = False"
| "is_truthy (Array ks) = True"
| "is_truthy (Text t) = (t \<noteq> [])"
| "is_truthy (NotIterable z) = True"

text \<open>\<^verbatim>\<open>keywords.length === 0\<close>, evaluated only for a truthy value.\<close>

fun length_is_0 :: "keywords_value \<Rightarrow> bool" where
  "length_is_0 Falsy = False"
| "length_is_0 (Array ks) = (length ks = 0)"
| "length_is_0 (Text t) = (length t = 0)"
| "length_is_0 (NotIterable z) = z"

text \<open>What \<^verbatim>\<open>for (const keyword of keywords)\<close> visits: the elements of an array, the
  characters of a string; \<open>None\<close> when the statement throws the TypeError
  'keywords is not iterable'.\<close>

fun iterate :: "keywords_value \<Rightarrow> string list option" where
  "iterate Falsy = None"
| "iterate (Array ks) = Some ks"
| "iterate (Text t) = Some (map (\<lambda>c. [c]) t)"
| "iterate (NotIterable z) = None"

text \<open>The handler. The loop statement stands outside the try block of the keyword, so the
  error it throws reaches the outer catch block, which answers with status 500 and the
  message of the error.\<close>

definition search_channels ::
  "'w protocol \<Rightarrow> keywords_value \<Rightarrow> int \<Rightarrow> int \<Rightarrow> string \<Rightarrow> string
     \<Rightarrow> 'w server \<Rightarrow> response \<times> 'w server" where
  "search_channels P keywords minSubscribers maxSubscribers apiId phoneNumber s =
     (if \<not> is_truthy keywords \<or> length_is_0 keywords then
        (Error 400 ''Keywords are required'', s)
      else
        (case sessions s (sessionKey phoneNumber apiId) of
           None \<Rightarrow> (Error 401 ''Not connected to Telegram. Please connect first.'', s)
         | Some client \<Rightarrow>
             if \<not> connected client
             then (Error 401 ''Not connected to Telegram. Please connect first.'', s)
             else
               (case iterate keywords of
                  None \<Rightarrow> (Error 500 ''keywords is not iterable'', s)
                | Some ks \<Rightarrow>
                    (case keywords_loop P client minSubscribers maxSubscribers ks [] {} (env s) of
                       (allChannels, seenIds, io') \<Rightarrow>
                         (SearchOk True allChannels (length allChannels), s\<lparr>env := io'\<rparr>)))))"

section \<open>POST /api/connect\<close>

text \<open>A body field that is missing is \<open>None\<close>; \<^verbatim>\<open>!v\<close> also holds for the empty string.\<close>

definition truthy :: "string option \<Rightarrow> bool" where
  "truthy v = (case v of None \<Rightarrow> False | Some x \<Rightarrow> x \<noteq> [])"

text \<open>\<^verbatim>\<open>password || ''\<close>\<close>

definition or_empty :: "string option \<Rightarrow> string" where
  "or_empty v = (case v of None \<Rightarrow> [] | Some x \<Rightarrow> x)"

text \<open>\<^verbatim>\<open>s.includes(sub)\<close>\<close>

fun str_includes :: "string \<Rightarrow> string \<Rightarrow> bool" where
  "str_includes [] sub = (sub = [])"
| "str_includes (c # cs) sub = (starts_with sub (c # cs) \<or> str_includes cs sub)"

definition connect_client :: "'w protocol \<Rightarrow> tclient \<Rightarrow> 'w io \<Rightarrow> unit outcome \<times> tclient \<times> 'w io" where
  "connect_client P client io =
     (case p_connect P (fst io) client of
        (r, client', w) \<Rightarrow> (r, client', (w, snd io @ [EvConnect])))"

definition sendCode ::
  "'w protocol \<Rightarrow> tclient \<Rightarrow> string \<Rightarrow> string \<Rightarrow> string \<Rightarrow> 'w io \<Rightarrow> unit outcome \<times> tclient \<times> 'w io" where
  "sendCode P client apiId apiHash phoneNumber io =
     (case p_sendCode P (fst io) client apiId apiHash phoneNumber of
        (r, client', w) \<Rightarrow> (r, client', (w, snd io @ [EvSendCode apiId apiHash phoneNumber])))"

definition signInUser ::
  "'w protocol \<Rightarrow> tclient \<Rightarrow> string \<Rightarrow> string \<Rightarrow> string \<Rightarrow> string \<Rightarrow> string \<Rightarrow> 'w io
     \<Rightarrow> unit outcome \<times> tclient \<times> 'w io" where
  "signInUser P client apiId apiHash phoneNumber code password io =
     (case p_signInUser P (fst io) client apiId apiHash phoneNumber code password of
        (r, client', w) \<Rightarrow>
          (r, client', (w, snd io @ [EvSignInUser apiId apiHash phoneNumber code password])))"

text \<open>The handler. The client made by \<^verbatim>\<open>new TelegramClient(new StringSession(''), ...)\<close>
  starts disconnected with an empty session; the application id is handed to the platform
  as the text the body carries. An error that reaches the outer catch block is answered with
  status 500 and its message. In the branch for a key that is already registered the client
  is the object held by the map, so what \<^verbatim>\<open>client.connect()\<close> does to it stays in the map.\<close>

definition connect ::
  "'w protocol \<Rightarrow> string option \<Rightarrow> string option \<Rightarrow> string option \<Rightarrow> string option
     \<Rightarrow> string option \<Rightarrow> 'w server \<Rightarrow> response \<times> 'w server" where
  "connect P apiId apiHash phoneNumber code password s =
     (if \<not> truthy apiId \<or> \<not> truthy apiHash \<or> \<not> truthy phoneNumber then
        (Error 400 ''Missing required fields: apiId, apiHash, phoneNumber'', s)
      else
        let key = sessionKey (the phoneNumber) (the apiId) in
        case sessions s key of
          None \<Rightarrow>
            (case connect_client P \<lparr>connected = False, session = []\<rparr> (env s) of
               (Inl err, client, io1) \<Rightarrow> (Error 500 err, s\<lparr>env := io1\<rparr>)
             | (Inr _, client, io1) \<Rightarrow>
                 if \<not> connected client then
                   (Error 500 ''Failed to connect to Telegram'', s\<lparr>env := io1\<rparr>)
                 else if \<not> truthy code then
                   (case sendCode P client (the apiId) (the apiHash) (the phoneNumber) io1 of
                      (Inl err, client', io2) \<Rightarrow> (Error 500 err, s\<lparr>env := io2\<rparr>)
                    | (Inr _, client', io2) \<Rightarrow>
                        (CodeSent True True ''Verification code sent to your Telegram app'',
                         s\<lparr>sessions := (sessions s)(key \<mapsto> client'), env := io2\<rparr>))
                 else
                   (case signInUser P client (the apiId) (the apiHash) (the phoneNumber)
                           (the code) (or_empty password) io1 of
                      (Inl err, client', io2) \<Rightarrow>
                        if str_includes err ''PHONE_CODE_INVALID'' then
                          (Error 400 ''Invalid verification code'', s\<lparr>env := io2\<rparr>)
                        else if str_includes err ''SESSION_PASSWORD_NEEDED'' then
                          (PasswordNeeded True True
                             ''Two-factor authentication enabled. Please provide password.'',
                           s\<lparr>env := io2\<rparr>)
                        else (Error 500 err, s\<lparr>env := io2\<rparr>)
                    | (Inr _, client', io2) \<Rightarrow>
                        (ConnectOk True ''Successfully connected to Telegram'' (session client'),
                         s\<lparr>sessions := (sessions s)(key \<mapsto> client'), env := io2\<rparr>)))
        | Some client \<Rightarrow>
            if \<not> connected client then
              (case connect_client P client (env s) of
                 (Inl err, client', io1) \<Rightarrow>
                   (Error 500 err,
                    s\<lparr>sessions := (sessions s)(key \<mapsto> client'), env := io1\<rparr>)
               | (Inr _, client', io1) \<Rightarrow>
                   (ConnectOk True ''Already connected'' (session client'),
                    s\<lparr>sessions := (sessions s)(key \<mapsto> client'), env := io1\<rparr>))
            else (ConnectOk True ''Already connected'' (session client), s))"

section \<open>POST /api/comment and the background loop\<close>

text \<open>
  The handler sets the flag and calls an async function without awaiting it. That function
  runs inside the handler up to its first \<^verbatim>\<open>await\<close> and from then on in pieces, one per
  completed await, between which other handlers run. A loop is therefore a suspension point
  (\<open>pc\<close>) and a function \<open>resume\<close> that runs it from the completed await to the next one. An
  event is recorded when the call is issued; the platform is consulted when its result
  arrives.
\<close>

datatype 'a for_result = Suspend 'a | Finished

text \<open>The head of one iteration of \<^verbatim>\<open>for (const link of channelLinks)\<close>, given the links
  not yet visited: the statement finishes when none is left or at
  \<^verbatim>\<open>if (!commentingActive) break\<close>; otherwise the try block starts and suspends at
  \<^verbatim>\<open>await client.getEntity(username)\<close>.\<close>

definition for_head :: "bool \<Rightarrow> string list \<Rightarrow> 'w io \<Rightarrow> (pc \<times> 'w io) for_result" where
  "for_head active remaining io =
     (case remaining of
        [] \<Rightarrow> Finished
      | link # rest \<Rightarrow>
          if \<not> active then Finished
          else Suspend (AwaitEntity link rest, issue (EvGetEntity (username_of link)) io))"

text \<open>\<^verbatim>\<open>while (commentingActive) { for ... }\<close> up to the next suspension. No handler runs
  while this code runs, so the flag has one value throughout. \<open>None\<close>: the loop never reaches
  an await and never ends.\<close>

partial_function (option) while_loop :: "bool \<Rightarrow> string list \<Rightarrow> 'w io \<Rightarrow> (pc \<times> 'w io) option" where
  "while_loop active channelLinks io =
     (if active then
        (case for_head active channelLinks io of
           Suspend r \<Rightarrow> Some r
         | Finished \<Rightarrow> while_loop active channelLinks io)
      else Some (Done, io))"

text \<open>\<^verbatim>\<open>await new Promise(resolve => setTimeout(resolve, interval * 1000))\<close> is issued.\<close>

definition start_sleep :: "loop \<Rightarrow> string list \<Rightarrow> 'w io \<Rightarrow> pc \<times> 'w io" where
  "start_sleep l rest io = (AwaitSleep rest, issue (EvSleep (l_interval l * 1000)) io)"

text \<open>The loop runs from the await that has completed to the next one. An error thrown by
  one of the three calls goes to the catch block, after which the sleep starts; so does a
  channel without messages.\<close>

definition resume :: "'w protocol \<Rightarrow> bool \<Rightarrow> loop \<Rightarrow> 'w io \<Rightarrow> (pc \<times> 'w io) option" where
  "resume P active l io =
     (case l_pc l of
        AwaitEntity link rest \<Rightarrow>
          (case p_getEntity P (fst io) (l_client l) (username_of link) of
             (Inl err, w) \<Rightarrow> Some (start_sleep l rest (w, snd io))
           | (Inr channel, w) \<Rightarrow>
               Some (AwaitMessages link channel rest, issue (EvGetMessages channel 5) (w, snd io)))
      | AwaitMessages link channel rest \<Rightarrow>
          (case p_getMessages P (fst io) (l_client l) channel 5 of
             (Inl err, w) \<Rightarrow> Some (start_sleep l rest (w, snd io))
           | (Inr messages, w) \<Rightarrow>
               (case messages of
                  [] \<Rightarrow> Some (start_sleep l rest (w, snd io))
                | latestMessage # _ \<Rightarrow>
                    Some (AwaitSend link channel (msg_id latestMessage) rest,
                          issue (EvSendMessage channel (l_text l) (msg_id latestMessage))
                            (w, snd io))))
      | AwaitSend link channel replyTo rest \<Rightarrow>
          (case p_sendMessage P (fst io) (l_client l) channel (l_text l) replyTo of
             (Inl err, w) \<Rightarrow> Some (start_sleep l rest (w, snd io))
           | (Inr _, w) \<Rightarrow> Some (start_sleep l rest (w, snd io)))
      | AwaitSleep rest \<Rightarrow>
          (let io1 = (p_elapse P (fst io) (l_interval l * 1000), snd io) in
           case for_head active rest io1 of
             Suspend r \<Rightarrow> Some r
           | Finished \<Rightarrow> while_loop active (l_links l) io1)
      | Done \<Rightarrow> Some (Done, io))"

text \<open>The handler. \<open>None\<close>: the handler never returns (the loop it started never reaches an
  await), so the process handles nothing any more.\<close>

definition comment ::
  "'w protocol \<Rightarrow> string list \<Rightarrow> string \<Rightarrow> int \<Rightarrow> string \<Rightarrow> string
     \<Rightarrow> 'w server \<Rightarrow> (response \<times> 'w server) option" where
  "comment P channelLinks commentText interval apiId phoneNumber s =
     (case sessions s (sessionKey phoneNumber apiId) of
        None \<Rightarrow> Some (Error 401 ''Not connected to Telegram'', s)
      | Some client \<Rightarrow>
          if \<not> connected client then Some (Error 401 ''Not connected to Telegram'', s)
          else
            let s1 = s\<lparr>commentingActive := True\<rparr> in
            case while_loop (commentingActive s1) channelLinks (env s1) of
              None \<Rightarrow> None
            | Some (pc0, io1) \<Rightarrow>
                Some (CommentOk True ''Commenting started'' interval (length channelLinks),
                      s1\<lparr>loops := loops s1 @
                           [\<lparr>l_client = client, l_links = channelLinks, l_text = commentText,
                             l_interval = interval, l_pc = pc0\<rparr>],
                         env := io1\<rparr>))"

section \<open>The process as a transition system\<close>

text \<open>What happens to the process: a request arrives and is handled, or the await of the
  background loop with the given index completes.\<close>

datatype request =
    Connect "string option" "string option" "string option" "string option" "string option"
  | SearchChannels keywords_value int int string string
  | Subscribe "string list" string string
  | Comment "string list" string int string string
  | StopCommenting

datatype action = Request request | Resume nat

definition handle :: "'w protocol \<Rightarrow> request \<Rightarrow> 'w server \<Rightarrow> (response \<times> 'w server) option" where
  "handle P r s =
     (case r of
        Connect apiId apiHash phoneNumber code password \<Rightarrow>
          Some (connect P apiId apiHash phoneNumber code password s)
      | SearchChannels keywords minSubscribers maxSubscribers apiId phoneNumber \<Rightarrow>
          Some (search_channels P keywords minSubscribers maxSubscribers apiId phoneNumber s)
      | Subscribe channelLinks apiId phoneNumber \<Rightarrow>
          Some (subscribe P channelLinks apiId phoneNumber s)
      | Comment channelLinks commentText interval apiId phoneNumber \<Rightarrow>
          comment P channelLinks commentText interval apiId phoneNumber s
      | StopCommenting \<Rightarrow> Some (stop_commenting s))"

definition resume_loop :: "'w protocol \<Rightarrow> nat \<Rightarrow> 'w server \<Rightarrow> 'w server option" where
  "resume_loop P i s =
     (if i < length (loops s) then
        (case resume P (commentingActive s) (loops s ! i) (env s) of
           None \<Rightarrow> None
         | Some (pc', io') \<Rightarrow>
             Some (s\<lparr>loops := (loops s)[i := (loops s ! i)\<lparr>l_pc := pc'\<rparr>], env := io'\<rparr>))
      else Some s)"

definition step :: "'w protocol \<Rightarrow> action \<Rightarrow> 'w server \<Rightarrow> 'w server option" where
  "step P a s =
     (case a of
        Request r \<Rightarrow> map_option snd (handle P r s)
      | Resume i \<Rightarrow> resume_loop P i s)"

fun run :: "'w protocol \<Rightarrow> action list \<Rightarrow> 'w server \<Rightarrow> 'w server option" where
  "run P [] s = Some s"
| "run P (a # as) s = (case step P a s of None \<Rightarrow> None | Some s' \<Rightarrow> run P as s')"

text \<open>The background loops that have not ended.\<close>

definition running :: "'w server \<Rightarrow> nat" where
  "running s = length (filter (\<lambda>l. l_pc l \<noteq> Done) (loops s))"

section \<open>Notions used to state the properties\<close>


fun is_send :: "event \<Rightarrow> bool" where
  "is_send (EvSendMessage channel text replyTo) = True"
| "is_send e = False"

fun is_sleep :: "event \<Rightarrow> bool" where
  "is_sleep (EvSleep ms) = True"
| "is_sleep e = False"

text \<open>How far a suspended loop is from its end when nothing restarts it: the awaits of one
  channel come in the order getEntity, getMessages, sendMessage, sleep.\<close>

fun stage :: "pc \<Rightarrow> nat" where
  "stage (AwaitEntity link rest) = 4"
| "stage (AwaitMessages link channel rest) = 3"
| "stage (AwaitSend link channel replyTo rest) = 2"
| "stage (AwaitSleep rest) = 1"
| "stage Done = 0"

fun links_left :: "pc \<Rightarrow> string list" where
  "links_left (AwaitEntity link rest) = rest"
| "links_left (AwaitMessages link channel rest) = rest"
| "links_left (AwaitSend link channel replyTo rest) = rest"
| "links_left (AwaitSleep rest) = rest"
| "links_left Done = []"

definition may_send :: "pc \<Rightarrow> nat" where
  "may_send p = (if stage p \<ge> 3 then 1 else 0)"

definition may_sleep :: "pc \<Rightarrow> nat" where
  "may_sleep p = (if stage p \<ge> 2 then 1 else 0)"

text \<open>A loop resumed \<open>n\<close> times while the flag is false.\<close>

fun drain :: "'w protocol \<Rightarrow> nat \<Rightarrow> loop \<Rightarrow> 'w io \<Rightarrow> (loop \<times> 'w io) option" where
  "drain P 0 l io = Some (l, io)"
| "drain P (Suc n) l io =
     (case resume P False l io of
        None \<Rightarrow> None
      | Some (pc', io') \<Rightarrow> drain P n (l\<lparr>l_pc := pc'\<rparr>) io')"

text \<open>A run in which every \<^verbatim>\<open>POST /api/comment\<close> arrives when no loop is running.\<close>

fun is_start :: "action \<Rightarrow> bool" where
  "is_start (Request (Comment channelLinks commentText interval apiId phoneNumber)) = True"
| "is_start a = False"

fun starts_when_idle :: "'w protocol \<Rightarrow> action list \<Rightarrow> 'w server \<Rightarrow> bool" where
  "starts_when_idle P [] s = True"
| "starts_when_idle P (a # as) s =
     ((is_start a \<longrightarrow> running s = 0)
      \<and> (case step P a s of None \<Rightarrow> True | Some s' \<Rightarrow> starts_when_idle P as s'))"

section \<open>A concrete platform\<close>

text \<open>A small deterministic platform on which the handlers can be evaluated: the keywords
  x and y find overlapping channels and any other keyword is refused; the metadata of channel
  1 cannot be fetched and every other channel has 2500 subscribers; the username bar cannot be
  resolved; 12345 is the valid code.\<close>

definition demo_chat :: "string \<Rightarrow> chat" where
  "demo_chat i = \<lparr>className = ''Channel'', megagroup = False, chat_id = i, title = ''T'',
                  chat_username = None, chat_verified = False\<rparr>"

definition demo :: "unit protocol" where
  "demo =
     \<lparr>p_connect = (\<lambda>w c. (Inr (), c\<lparr>connected := True\<rparr>, w)),
      p_sendCode = (\<lambda>w c apiId apiHash phoneNumber. (Inr (), c, w)),
      p_signInUser = (\<lambda>w c apiId apiHash phoneNumber code password.
         if code = ''12345'' then (Inr (), c\<lparr>session := ''S''\<rparr>, w)
         else (Inl ''PHONE_CODE_INVALID'', c, w)),
      p_search = (\<lambda>w c q limit.
         if q = ''x'' then (Inr [demo_chat ''1'', demo_chat ''2''], w)
         else if q = ''y'' then (Inr [demo_chat ''2'', demo_chat ''3''], w)
         else (Inl ''FLOOD'', w)),
      p_getFullChannel = (\<lambda>w c ch.
         if chat_id ch = ''1'' then (Inl ''CHANNEL_PRIVATE'', w)
         else (Inr \<lparr>participantsCount = Some 2500, about = None, flags = None\<rparr>, w)),
      p_getEntity = (\<lambda>w c u. if u = ''bar'' then (Inl ''NOT_FOUND'', w) else (Inr (Entity u), w)),
      p_joinChannel = (\<lambda>w c e. (Inr (), w)),
      p_getMessages = (\<lambda>w c e limit. (Inr [\<lparr>msg_id = 7\<rparr>], w)),
      p_sendMessage = (\<lambda>w c e text replyTo. (Inr (), w)),
      p_elapse = (\<lambda>w ms. w)\<rparr>"

text \<open>A server in which the key \<^verbatim>\<open>p_1\<close> holds a connected client.\<close>

definition demo_client :: tclient where
  "demo_client = \<lparr>connected = True, session = ''S''\<rparr>"

definition demo_server :: "unit server" where
  "demo_server = \<lparr>sessions = [''p_1'' \<mapsto> demo_client],
                  commentingActive = False, loops = [], env = ((), [])\<rparr>"

text \<open>A loop of the concrete platform at a given suspension point, and two requests.\<close>

definition demo_loop :: "pc \<Rightarrow> loop" where
  "demo_loop p = \<lparr>l_client = demo_client, l_links = [''a'', ''b''], l_text = ''hi'',
                  l_interval = 60, l_pc = p\<rparr>"

definition demo_connect :: action where
  "demo_connect = Request (Connect (Some ''1'') (Some ''h'') (Some ''p'') None None)"

definition demo_comment :: action where
  "demo_comment = Request (Comment [''a''] ''hi'' 60 ''1'' ''p'')"

section \<open>Properties\<close>

subsection \<open>Evaluation on the concrete platform\<close>

lemma demo_platform:
  "p_connect demo w c = (Inr (), c\<lparr>connected := True\<rparr>, w)"
  "p_sendCode demo w c apiId apiHash phoneNumber = (Inr (), c, w)"
  "p_signInUser demo w c apiId apiHash phoneNumber code password =
     (if code = ''12345'' then (Inr (), c\<lparr>session := ''S''\<rparr>, w)
      else (Inl ''PHONE_CODE_INVALID'', c, w))"
  "p_search demo w c q limit =
     (if q = ''x'' then (Inr [demo_chat ''1'', demo_chat ''2''], w)
      else if q = ''y'' then (Inr [demo_chat ''2'', demo_chat ''3''], w)
      else (Inl ''FLOOD'', w))"
  "p_getFullChannel demo w c ch =
     (if chat_id ch = ''1'' then (Inl ''CHANNEL_PRIVATE'', w)
      else (Inr \<lparr>participantsCount = Some 2500, about = None, flags = None\<rparr>, w))"
  "p_getEntity demo w c u = (if u = ''bar'' then (Inl ''NOT_FOUND'', w) else (Inr (Entity u), w))"
  "p_joinChannel demo w c e = (Inr (), w)"
  "p_getMessages demo w c e limit = (Inr [\<lparr>msg_id = 7\<rparr>], w)"
  "p_sendMessage demo w c e text replyTo = (Inr (), w)"
  "p_elapse demo w ms = w"
  by (simp_all add: demo_def)

lemmas demo_eval =
  demo_platform demo_chat_def demo_client_def demo_server_def sessionKey_def initial_def Let_def

lemmas subscribe_eval =
  subscribe_def subscribe_one_def getEntity_def joinChannel_def join_fails_def
  joined_entry_def failed_entry_def username_of_def sleep_def

lemmas search_eval =
  search_channels_def search_keyword_def process_chat_def search_def getFullChannel_def
  participants_def hasDiscussion_def channel_of_def sleep_def

lemmas connect_eval =
  connect_def connect_client_def sendCode_def signInUser_def truthy_def or_empty_def

lemmas run_eval =
  step_def handle_def comment_def resume_loop_def stop_commenting_def running_def

lemma demo_session: "sessions demo_server (sessionKey ''p'' ''1'') = Some demo_client"
  by (simp add: demo_eval)

lemma demo_connected: "connected demo_client"
  by (simp add: demo_eval)

subsection \<open>Stopping\<close>

text \<open>
  C10. The stop handler is total and idempotent: in every state, whether or not a job was
  ever started, it leaves the active flag false, answers success with the message
  'Commenting stopped', changes nothing else, and a second stop gives the same answer and the
  same state as the first.
\<close>

theorem stop_commenting_idempotent:
  "fst (stop_commenting s) = StopOk True ''Commenting stopped''
   \<and> commentingActive (snd (stop_commenting s)) = False
   \<and> sessions (snd (stop_commenting s)) = sessions s
   \<and> loops (snd (stop_commenting s)) = loops s
   \<and> env (snd (stop_commenting s)) = env s
   \<and> stop_commenting (snd (stop_commenting s)) = stop_commenting s"
  by (simp add: stop_commenting_def)

subsection \<open>Subscription\<close>

lemma subscribe_one_acc:
  "subscribe_one P c l acc io =
     (acc @ fst (subscribe_one P c l [] io), snd (subscribe_one P c l [] io))"
  by (simp add: subscribe_one_def Let_def split: prod.splits sum.splits)

lemma subscribe_one_single:
  "\<exists>r. fst (subscribe_one P c l [] io) = [r] \<and> sr_channel r = l
        \<and> sr_success r = (\<not> join_fails P c l io)"
  by (simp add: subscribe_one_def join_fails_def joined_entry_def failed_entry_def Let_def
           split: prod.splits sum.splits)

lemma subscribe_loop_acc:
  "subscribe_loop P c ls acc io =
     (acc @ fst (subscribe_loop P c ls [] io), snd (subscribe_loop P c ls [] io))"
proof (induction ls arbitrary: acc io)
  case Nil
  show ?case by simp
next
  case (Cons l ls)
  obtain r io1 where one: "subscribe_one P c l [] io = (r, io1)"
    by (cases "subscribe_one P c l [] io")
  have step: "subscribe_one P c l acc io = (acc @ r, io1)"
    using subscribe_one_acc [of P c l acc io] one by simp
  show ?case
    using Cons.IH [of "acc @ r" io1] Cons.IH [of r io1] by (simp add: one step)
qed

lemma subscribe_loop_channels:
  "map sr_channel (fst (subscribe_loop P c ls [] io)) = ls"
proof (induction ls arbitrary: io)
  case Nil
  show ?case by simp
next
  case (Cons l ls)
  obtain r where r: "fst (subscribe_one P c l [] io) = [r]" "sr_channel r = l"
    using subscribe_one_single [of P c l io] by blast
  obtain io1 where one: "subscribe_one P c l [] io = ([r], io1)"
    using r(1) by (cases "subscribe_one P c l [] io") simp
  show ?case
    using subscribe_loop_acc [of P c ls "[r]" io1] Cons.IH [of io1] r(2) by (simp add: one)
qed

lemma subscribe_loop_success:
  "map sr_success (fst (subscribe_loop P c ls [] io)) = map Not (fail_flags P c ls io)"
proof (induction ls arbitrary: io)
  case Nil
  show ?case by simp
next
  case (Cons l ls)
  obtain r where r: "fst (subscribe_one P c l [] io) = [r]"
      "sr_success r = (\<not> join_fails P c l io)"
    using subscribe_one_single [of P c l io] by blast
  obtain io1 where one: "subscribe_one P c l [] io = ([r], io1)"
    using r(1) by (cases "subscribe_one P c l [] io") simp
  show ?case
    using subscribe_loop_acc [of P c ls "[r]" io1] Cons.IH [of io1] r(2) by (simp add: one)
qed

lemma count_split:
  "length (filter (\<lambda>r. sr_success r) rs) = length rs - length (filter (\<lambda>r. \<not> sr_success r) rs)"
  using sum_length_filter_compl [of "\<lambda>r. sr_success r" rs] by simp

lemma filter_flags:
  "map sr_success rs = map Not fs \<Longrightarrow>
     length (filter (\<lambda>r. \<not> sr_success r) rs) = length (filter (\<lambda>b. b) fs)"
proof (induction rs arbitrary: fs)
  case Nil
  then show ?case by simp
next
  case (Cons r rs)
  then show ?case by (cases fs) auto
qed

text \<open>
  C3. For a connected session and a list of N links of which K join attempts fail, the
  subscribe handler answers with a result list of length N whose entries follow the order of
  the links, each marked successful exactly when its attempt did not fail, with
  joined = N - K and failed = K, whichever positions fail.
\<close>

theorem subscribe_aggregate:
  assumes "sessions s (sessionKey phoneNumber apiId) = Some client" and "connected client"
  shows "let results = fst (subscribe_loop P client channelLinks [] (env s));
             fails = fail_flags P client channelLinks (env s);
             N = length channelLinks;
             K = length (filter (\<lambda>b. b) fails)
         in fst (subscribe P channelLinks apiId phoneNumber s) = SubscribeOk True results (N - K) K
            \<and> length results = N
            \<and> map sr_channel results = channelLinks
            \<and> map sr_success results = map Not fails"
proof -
  let ?rs = "fst (subscribe_loop P client channelLinks [] (env s))"
  let ?fs = "fail_flags P client channelLinks (env s)"
  have ch: "map sr_channel ?rs = channelLinks" by (rule subscribe_loop_channels)
  have su: "map sr_success ?rs = map Not ?fs" by (rule subscribe_loop_success)
  have len: "length ?rs = length channelLinks"
    using ch by (metis length_map)
  have k: "length (filter (\<lambda>r. \<not> sr_success r) ?rs) = length (filter (\<lambda>b. b) ?fs)"
    using su by (rule filter_flags)
  have j: "length (filter (\<lambda>r. sr_success r) ?rs)
             = length channelLinks - length (filter (\<lambda>b. b) ?fs)"
    using count_split [of ?rs] len k by simp
  have resp: "fst (subscribe P channelLinks apiId phoneNumber s)
        = SubscribeOk True ?rs (length (filter (\<lambda>r. sr_success r) ?rs))
            (length (filter (\<lambda>r. \<not> sr_success r) ?rs))"
    using assms by (simp add: subscribe_def split: prod.splits)
  show ?thesis
    unfolding Let_def using resp ch su len k j by simp
qed

text \<open>
  The scenario of the specification on the concrete platform: of the links
  https://t.me/foo and @bar the second cannot be resolved; one is joined and one fails.
\<close>

theorem subscribe_aggregate_witness:
  "sessions demo_server (sessionKey ''p'' ''1'') = Some demo_client \<and> connected demo_client
   \<and> fail_flags demo demo_client [''https://t.me/foo'', ''@bar''] (env demo_server) = [False, True]
   \<and> fst (subscribe demo [''https://t.me/foo'', ''@bar''] ''1'' ''p'' demo_server)
       = SubscribeOk True
           [\<lparr>sr_channel = ''https://t.me/foo'', sr_username = Some ''foo'', sr_success = True,
              sr_message = Some ''Successfully joined'', sr_error = None\<rparr>,
            \<lparr>sr_channel = ''@bar'', sr_username = None, sr_success = False,
              sr_message = None, sr_error = Some ''NOT_FOUND''\<rparr>] 1 1"
proof -
  have ff: "fail_flags demo demo_client [''https://t.me/foo'', ''@bar''] (env demo_server)
              = [False, True]"
    by (simp add: demo_eval subscribe_eval)
  have rs: "fst (subscribe_loop demo demo_client [''https://t.me/foo'', ''@bar''] [] (env demo_server))
      = [\<lparr>sr_channel = ''https://t.me/foo'', sr_username = Some ''foo'', sr_success = True,
              sr_message = Some ''Successfully joined'', sr_error = None\<rparr>,
            \<lparr>sr_channel = ''@bar'', sr_username = None, sr_success = False,
              sr_message = None, sr_error = Some ''NOT_FOUND''\<rparr>]"
    by (simp add: demo_eval subscribe_eval)
  from subscribe_aggregate [OF demo_session demo_connected,
         of demo "[''https://t.me/foo'', ''@bar'']"]
  show ?thesis
    unfolding Let_def ff rs using demo_session demo_connected by simp
qed

lemma subscribe_one_shape:
  "\<exists>r. fst (subscribe_one P c l [] io) = [r] \<and> sr_channel r = l
      \<and> (sr_success r \<longrightarrow> sr_username r = Some (username_of l)
            \<and> sr_message r = Some ''Successfully joined'' \<and> sr_error r = None)
      \<and> (\<not> sr_success r \<longrightarrow> sr_username r = None \<and> sr_message r = None
            \<and> sr_error r \<noteq> None)"
  by (simp add: subscribe_one_def joined_entry_def failed_entry_def Let_def
           split: prod.splits sum.splits)

lemma subscribe_loop_shape:
  assumes "r \<in> set (fst (subscribe_loop P c ls [] io))"
  shows "sr_channel r \<in> set ls
      \<and> (sr_success r \<longrightarrow> sr_username r = Some (username_of (sr_channel r))
            \<and> sr_message r = Some ''Successfully joined'' \<and> sr_error r = None)
      \<and> (\<not> sr_success r \<longrightarrow> sr_username r = None \<and> sr_message r = None
            \<and> sr_error r \<noteq> None)"
  using assms
proof (induction ls arbitrary: io)
  case Nil
  then show ?case by simp
next
  case (Cons l ls)
  obtain r1 where r1: "fst (subscribe_one P c l [] io) = [r1]" "sr_channel r1 = l"
      "sr_success r1 \<longrightarrow> sr_username r1 = Some (username_of l)
            \<and> sr_message r1 = Some ''Successfully joined'' \<and> sr_error r1 = None"
      "\<not> sr_success r1 \<longrightarrow> sr_username r1 = None \<and> sr_message r1 = None
            \<and> sr_error r1 \<noteq> None"
    using subscribe_one_shape [of P c l io] by blast
  obtain io1 where one: "subscribe_one P c l [] io = ([r1], io1)"
    using r1(1) by (cases "subscribe_one P c l [] io") simp
  have "fst (subscribe_loop P c (l # ls) [] io) = r1 # fst (subscribe_loop P c ls [] io1)"
    using subscribe_loop_acc [of P c ls "[r1]" io1] by (simp add: one)
  with Cons.prems have "r = r1 \<or> r \<in> set (fst (subscribe_loop P c ls [] io1))" by simp
  then show ?case
  proof
    assume "r = r1"
    with r1 show ?thesis by simp
  next
    assume "r \<in> set (fst (subscribe_loop P c ls [] io1))"
    from Cons.IH [OF this] show ?thesis by simp
  qed
qed

text \<open>
  C9, as the handler has it. Every entry of the result list carries the link it was made
  for and a success flag. A successful entry also carries the normalized username and the
  message 'Successfully joined', and no error; a failed entry carries the error message, and
  neither a username nor a message.
\<close>

theorem subscribe_result_shape:
  assumes "fst (subscribe P channelLinks apiId phoneNumber s) = SubscribeOk ok results j f"
    and "r \<in> set results"
  shows "sr_channel r \<in> set channelLinks
      \<and> (sr_success r \<longrightarrow> sr_username r = Some (username_of (sr_channel r))
            \<and> sr_message r = Some ''Successfully joined'' \<and> sr_error r = None)
      \<and> (\<not> sr_success r \<longrightarrow> sr_username r = None \<and> sr_message r = None
            \<and> sr_error r \<noteq> None)"
proof -
  from assms(1) have "\<exists>client. results = fst (subscribe_loop P client channelLinks [] (env s))"
    by (auto simp: subscribe_def split: option.splits if_splits prod.splits) (metis fst_conv)
  with assms(2) show ?thesis using subscribe_loop_shape by blast
qed

text \<open>
  C9 as stated asks for the resolved username in failed entries too. On the concrete platform
  the entry for the link @bar, which cannot be resolved, has no username.
\<close>

theorem failed_entry_has_no_username:
  "fst (subscribe demo [''@bar''] ''1'' ''p'' demo_server)
     = SubscribeOk True
         [\<lparr>sr_channel = ''@bar'', sr_username = None, sr_success = False,
           sr_message = None, sr_error = Some ''NOT_FOUND''\<rparr>] 0 1"
  by (simp add: demo_eval subscribe_eval)

theorem subscribe_result_shape_witness:
  "fst (subscribe demo [''https://t.me/foo'', ''@bar''] ''1'' ''p'' demo_server)
     = SubscribeOk True [joined_entry ''https://t.me/foo'' ''foo'', failed_entry ''@bar'' ''NOT_FOUND''] 1 1
   \<and> joined_entry ''https://t.me/foo'' ''foo''
        \<in> set [joined_entry ''https://t.me/foo'' ''foo'', failed_entry ''@bar'' ''NOT_FOUND'']
   \<and> sr_username (joined_entry ''https://t.me/foo'' ''foo'')
        = Some (username_of (sr_channel (joined_entry ''https://t.me/foo'' ''foo'')))"
proof -
  have resp: "fst (subscribe demo [''https://t.me/foo'', ''@bar''] ''1'' ''p'' demo_server)
     = SubscribeOk True [joined_entry ''https://t.me/foo'' ''foo'', failed_entry ''@bar'' ''NOT_FOUND''] 1 1"
    by (simp add: demo_eval subscribe_eval)
  have mem: "joined_entry ''https://t.me/foo'' ''foo''
        \<in> set [joined_entry ''https://t.me/foo'' ''foo'', failed_entry ''@bar'' ''NOT_FOUND'']"
    by simp
  have su: "sr_success (joined_entry ''https://t.me/foo'' ''foo'')"
    by (simp add: joined_entry_def)
  from subscribe_result_shape [OF resp mem] su resp mem show ?thesis by blast
qed

subsection \<open>Channel discovery\<close>




lemma getFullChannel_platform:
  "getFullChannel P client ch io = (r, io1) \<Longrightarrow> p_getFullChannel P (fst io) client ch = (r, fst io1)"
  by (auto simp: getFullChannel_def split: prod.splits)


lemma process_chat_cases:
  "process_chat P client lo hi k ch a seen io = (a', seen', io') \<Longrightarrow>
     (a' = a \<and> seen' = seen)
     \<or> (\<exists>fc io1. getFullChannel P client ch io = (Inr fc, io1)
           \<and> className ch = ''Channel'' \<and> \<not> megagroup ch \<and> chat_id ch \<notin> seen
           \<and> lo \<le> participants fc \<and> participants fc \<le> hi \<and> hasDiscussion fc
           \<and> a' = a @ [channel_of ch fc k] \<and> seen' = insert (chat_id ch) seen)"
  by (auto simp: process_chat_def split: if_splits prod.splits sum.splits)





lemma chats_loop_invariant:
  assumes step: "\<And>ch a seen io a1 seen1 io1.
            I a seen \<Longrightarrow> process_chat P client lo hi k ch a seen io = (a1, seen1, io1) \<Longrightarrow> I a1 seen1"
    and "I a seen" and "chats_loop P client lo hi k chs a seen io = (a', seen', io')"
  shows "I a' seen'"
  using assms(2,3)
proof (induction chs arbitrary: a seen io)
  case Nil
  then show ?case by simp
next
  case (Cons ch chs)
  obtain a1 seen1 io1 where one: "process_chat P client lo hi k ch a seen io = (a1, seen1, io1)"
    by (cases "process_chat P client lo hi k ch a seen io") auto
  have "I a1 seen1" using step [OF Cons.prems(1) one] .
  moreover from Cons.prems(2) one
  have "chats_loop P client lo hi k chs a1 seen1 io1 = (a', seen', io')" by simp
  ultimately show ?case by (rule Cons.IH)
qed

lemma search_keyword_invariant:
  assumes step: "\<And>ch a seen io a1 seen1 io1.
            I a seen \<Longrightarrow> process_chat P client lo hi k ch a seen io = (a1, seen1, io1) \<Longrightarrow> I a1 seen1"
    and "I a seen" and "search_keyword P client lo hi k a seen io = (a', seen', io')"
  shows "I a' seen'"
proof -
  obtain r io1 where s: "search P client k 50 io = (r, io1)"
    by (cases "search P client k 50 io") auto
  show ?thesis
  proof (cases r)
    case (Inl e)
    with s assms(2,3) show ?thesis by (simp add: search_keyword_def)
  next
    case (Inr chs)
    obtain a2 seen2 io2 where l: "chats_loop P client lo hi k chs a seen io1 = (a2, seen2, io2)"
      by (cases "chats_loop P client lo hi k chs a seen io1") auto
    have "I a2 seen2" using chats_loop_invariant [where I = I, OF step assms(2) l] .
    with s Inr l assms(3) show ?thesis by (simp add: search_keyword_def)
  qed
qed

lemma keywords_loop_invariant:
  assumes step: "\<And>k ch a seen io a1 seen1 io1. k \<in> set ks \<Longrightarrow>
            I a seen \<Longrightarrow> process_chat P client lo hi k ch a seen io = (a1, seen1, io1) \<Longrightarrow> I a1 seen1"
    and "I a seen" and "keywords_loop P client lo hi ks a seen io = (a', seen', io')"
  shows "I a' seen'"
  using assms
proof (induction ks arbitrary: a seen io)
  case Nil
  then show ?case by simp
next
  case (Cons k ks)
  obtain a1 seen1 io1 where one: "search_keyword P client lo hi k a seen io = (a1, seen1, io1)"
    by (cases "search_keyword P client lo hi k a seen io") auto
  have here: "\<And>ch a seen io a1 seen1 io1.
            I a seen \<Longrightarrow> process_chat P client lo hi k ch a seen io = (a1, seen1, io1) \<Longrightarrow> I a1 seen1"
    using Cons.prems(1) [of k] by simp
  have later: "\<And>k' ch a seen io a1 seen1 io1. k' \<in> set ks \<Longrightarrow>
            I a seen \<Longrightarrow> process_chat P client lo hi k' ch a seen io = (a1, seen1, io1) \<Longrightarrow> I a1 seen1"
    using Cons.prems(1) by (meson list.set_intros(2))
  have i1: "I a1 seen1"
    using search_keyword_invariant [where I = I, OF here Cons.prems(2) one] .
  from Cons.prems(3) one
  have rest: "keywords_loop P client lo hi ks a1 seen1 io1 = (a', seen', io')" by simp
  show ?case using Cons.IH [OF later i1 rest] .
qed

lemma search_channels_ok:
  assumes "fst (search_channels P keywords lo hi apiId phoneNumber s) = SearchOk ok channels n"
  obtains ks client seen io' where "iterate keywords = Some ks"
    "sessions s (sessionKey phoneNumber apiId) = Some client" "connected client"
    "keywords_loop P client lo hi ks [] {} (env s) = (channels, seen, io')"
    "ok" "n = length channels"
  using assms
  by (auto simp: search_channels_def split: option.splits if_splits prod.splits)

lemma demo_search_xy:
  "fst (search_channels demo (Array [''x'', ''y'']) 1000 5000 ''1'' ''p'' demo_server)
     = SearchOk True
         [\<lparr>ce_id = ''2'', ce_name = ''T'', ce_username = None, ce_subscribers = 2500,
           ce_description = [], ce_verified = False, ce_keyword = ''x'', ce_hasComments = True\<rparr>,
          \<lparr>ce_id = ''3'', ce_name = ''T'', ce_username = None, ce_subscribers = 2500,
           ce_description = [], ce_verified = False, ce_keyword = ''y'', ce_hasComments = True\<rparr>] 2"
  by (simp add: demo_eval search_eval)

lemma demo_search_boundary:
  "fst (search_channels demo (Array [''x'']) 2500 2500 ''1'' ''p'' demo_server)
     = SearchOk True
         [\<lparr>ce_id = ''2'', ce_name = ''T'', ce_username = None, ce_subscribers = 2500,
           ce_description = [], ce_verified = False, ce_keyword = ''x'', ce_hasComments = True\<rparr>] 1"
  by (simp add: demo_eval search_eval)

text \<open>
  C5. Whatever the keywords and whatever the platform answers, the channels returned by one
  search request have pairwise different ids.
\<close>

theorem search_channels_distinct_ids:
  assumes "fst (search_channels P keywords minSubscribers maxSubscribers apiId phoneNumber s)
             = SearchOk ok channels n"
  shows "distinct (map ce_id channels)"
proof -
  let ?I = "\<lambda>a seen. distinct (map ce_id a) \<and> ce_id ` set a \<subseteq> seen"
  obtain ks client seen io' where
    loop: "keywords_loop P client minSubscribers maxSubscribers ks [] {} (env s) = (channels, seen, io')"
    using assms by (rule search_channels_ok)
  have "?I channels seen"
  proof (rule keywords_loop_invariant [where I = ?I, OF _ _ loop])
    show "?I [] {}" by simp
  next
    fix k ch a sn io a1 seen1 io1
    assume inv: "?I a sn"
      and one: "process_chat P client minSubscribers maxSubscribers k ch a sn io = (a1, seen1, io1)"
    have cid: "\<And>fc. ce_id (channel_of ch fc k) = chat_id ch"
      by (simp add: channel_of_def)
    from process_chat_cases [OF one] show "?I a1 seen1"
    proof
      assume "a1 = a \<and> seen1 = sn"
      with inv show ?thesis by simp
    next
      assume "\<exists>fc io2. getFullChannel P client ch io = (Inr fc, io2)
           \<and> className ch = ''Channel'' \<and> \<not> megagroup ch \<and> chat_id ch \<notin> sn
           \<and> minSubscribers \<le> participants fc \<and> participants fc \<le> maxSubscribers
           \<and> hasDiscussion fc
           \<and> a1 = a @ [channel_of ch fc k] \<and> seen1 = insert (chat_id ch) sn"
      then obtain fc where fresh: "chat_id ch \<notin> sn"
        and a1: "a1 = a @ [channel_of ch fc k]" and s1: "seen1 = insert (chat_id ch) sn"
        by blast
      from inv fresh have "chat_id ch \<notin> ce_id ` set a" by blast
      with inv a1 s1 show ?thesis by (auto simp: cid)
    qed
  qed
  then show ?thesis by simp
qed

theorem search_channels_distinct_ids_witness:
  "fst (search_channels demo (Array [''x'', ''y'']) 1000 5000 ''1'' ''p'' demo_server)
     = SearchOk True
         [\<lparr>ce_id = ''2'', ce_name = ''T'', ce_username = None, ce_subscribers = 2500,
           ce_description = [], ce_verified = False, ce_keyword = ''x'', ce_hasComments = True\<rparr>,
          \<lparr>ce_id = ''3'', ce_name = ''T'', ce_username = None, ce_subscribers = 2500,
           ce_description = [], ce_verified = False, ce_keyword = ''y'', ce_hasComments = True\<rparr>] 2
   \<and> distinct [''2'', ''3'']"
  using search_channels_distinct_ids [OF demo_search_xy] demo_search_xy by simp

lemma search_channels_entries:
  assumes "fst (search_channels P keywords minSubscribers maxSubscribers apiId phoneNumber s)
             = SearchOk ok channels n"
    and "c \<in> set channels"
  shows "minSubscribers \<le> ce_subscribers c \<and> ce_subscribers c \<le> maxSubscribers
         \<and> ce_hasComments c
         \<and> (\<exists>client ch fc w w' keyword.
               sessions s (sessionKey phoneNumber apiId) = Some client
               \<and> className ch = ''Channel'' \<and> \<not> megagroup ch
               \<and> p_getFullChannel P w client ch = (Inr fc, w')
               \<and> c = channel_of ch fc keyword
               \<and> ce_subscribers c = participants fc
               \<and> hasDiscussion fc)"
proof -
  obtain ks client seen io' where
    sess: "sessions s (sessionKey phoneNumber apiId) = Some client" and
    loop: "keywords_loop P client minSubscribers maxSubscribers ks [] {} (env s) = (channels, seen, io')"
    using assms(1) by (rule search_channels_ok)
  let ?Q = "\<lambda>c. minSubscribers \<le> ce_subscribers c \<and> ce_subscribers c \<le> maxSubscribers
         \<and> ce_hasComments c
         \<and> (\<exists>ch fc w w' keyword.
               className ch = ''Channel'' \<and> \<not> megagroup ch
               \<and> p_getFullChannel P w client ch = (Inr fc, w')
               \<and> c = channel_of ch fc keyword
               \<and> ce_subscribers c = participants fc
               \<and> hasDiscussion fc)"
  let ?I = "\<lambda>a (seen :: string set). \<forall>c \<in> set a. ?Q c"
  have "?I channels seen"
  proof (rule keywords_loop_invariant [where I = ?I, OF _ _ loop])
    show "?I [] {}" by simp
  next
    fix k ch a sn io a1 seen1 io1
    assume inv: "?I a sn"
      and one: "process_chat P client minSubscribers maxSubscribers k ch a sn io = (a1, seen1, io1)"
    from process_chat_cases [OF one] show "?I a1 seen1"
    proof
      assume "a1 = a \<and> seen1 = sn"
      with inv show ?thesis by simp
    next
      assume "\<exists>fc io2. getFullChannel P client ch io = (Inr fc, io2)
           \<and> className ch = ''Channel'' \<and> \<not> megagroup ch \<and> chat_id ch \<notin> sn
           \<and> minSubscribers \<le> participants fc \<and> participants fc \<le> maxSubscribers
           \<and> hasDiscussion fc
           \<and> a1 = a @ [channel_of ch fc k] \<and> seen1 = insert (chat_id ch) sn"
      then obtain fc io2 where g: "getFullChannel P client ch io = (Inr fc, io2)"
        and ch: "className ch = ''Channel''" "\<not> megagroup ch"
        and b: "minSubscribers \<le> participants fc" "participants fc \<le> maxSubscribers"
        and d: "hasDiscussion fc"
        and a1: "a1 = a @ [channel_of ch fc k]"
        by blast
      have pl: "p_getFullChannel P (fst io) client ch = (Inr fc, fst io2)"
        using g by (rule getFullChannel_platform)
      have sub: "ce_subscribers (channel_of ch fc k) = participants fc"
        and com: "ce_hasComments (channel_of ch fc k)"
        by (simp_all add: channel_of_def)
      have ex: "\<exists>ch' fc' w w' keyword.
               className ch' = ''Channel'' \<and> \<not> megagroup ch'
               \<and> p_getFullChannel P w client ch' = (Inr fc', w')
               \<and> channel_of ch fc k = channel_of ch' fc' keyword
               \<and> ce_subscribers (channel_of ch fc k) = participants fc'
               \<and> hasDiscussion fc'"
        using ch d pl sub by blast
      have "?Q (channel_of ch fc k)"
        using b sub com ex by simp
      with inv a1 show ?thesis by simp
    qed
  qed
  with assms(2) have "?Q c" by blast
  with sess show ?thesis by blast
qed

lemma process_chat_accepts:
  assumes "className ch = ''Channel''" "\<not> megagroup ch" "chat_id ch \<notin> seen"
    and "getFullChannel P client ch io = (Inr fc, io1)"
  shows "fst (process_chat P client lo hi keyword ch a seen io)
          = (if lo \<le> participants fc \<and> participants fc \<le> hi \<and> hasDiscussion fc
             then a @ [channel_of ch fc keyword] else a)"
  using assms by (simp add: process_chat_def)

text \<open>
  C4. A channel appears in the answer of a search request only if the subscriber count the
  platform reported for it lies between the minimum and the maximum, both included, and its
  discussion is enabled as the handler reads the flags. The bounds are exactly these: a
  channel that is eligible and whose metadata arrived is appended if and only if its count is
  within the inclusive bounds and its discussion is enabled.
\<close>

theorem search_channels_filter:
  "(\<forall>ok channels n c.
      fst (search_channels P keywords minSubscribers maxSubscribers apiId phoneNumber s)
        = SearchOk ok channels n \<and> c \<in> set channels
      \<longrightarrow> minSubscribers \<le> ce_subscribers c \<and> ce_subscribers c \<le> maxSubscribers
          \<and> ce_hasComments c
          \<and> (\<exists>client ch fc w w' keyword.
               sessions s (sessionKey phoneNumber apiId) = Some client
               \<and> className ch = ''Channel'' \<and> \<not> megagroup ch
               \<and> p_getFullChannel P w client ch = (Inr fc, w')
               \<and> c = channel_of ch fc keyword
               \<and> ce_subscribers c = participants fc
               \<and> hasDiscussion fc))
   \<and> (\<forall>client keyword ch fc a seen io io1.
         className ch = ''Channel'' \<and> \<not> megagroup ch \<and> chat_id ch \<notin> seen
         \<and> getFullChannel P client ch io = (Inr fc, io1)
       \<longrightarrow> fst (process_chat P client minSubscribers maxSubscribers keyword ch a seen io)
             = (if minSubscribers \<le> participants fc \<and> participants fc \<le> maxSubscribers
                   \<and> hasDiscussion fc
                then a @ [channel_of ch fc keyword] else a))"
proof (rule conjI)
  show "\<forall>ok channels n c.
      fst (search_channels P keywords minSubscribers maxSubscribers apiId phoneNumber s)
        = SearchOk ok channels n \<and> c \<in> set channels
      \<longrightarrow> minSubscribers \<le> ce_subscribers c \<and> ce_subscribers c \<le> maxSubscribers
          \<and> ce_hasComments c
          \<and> (\<exists>client ch fc w w' keyword.
               sessions s (sessionKey phoneNumber apiId) = Some client
               \<and> className ch = ''Channel'' \<and> \<not> megagroup ch
               \<and> p_getFullChannel P w client ch = (Inr fc, w')
               \<and> c = channel_of ch fc keyword
               \<and> ce_subscribers c = participants fc
               \<and> hasDiscussion fc)"
  proof (intro allI impI)
    fix ok channels n c
    assume "fst (search_channels P keywords minSubscribers maxSubscribers apiId phoneNumber s)
        = SearchOk ok channels n \<and> c \<in> set channels"
    then have r: "fst (search_channels P keywords minSubscribers maxSubscribers apiId phoneNumber s)
        = SearchOk ok channels n" and m: "c \<in> set channels" by simp_all
    from search_channels_entries [OF r m]
    show "minSubscribers \<le> ce_subscribers c \<and> ce_subscribers c \<le> maxSubscribers
          \<and> ce_hasComments c
          \<and> (\<exists>client ch fc w w' keyword.
               sessions s (sessionKey phoneNumber apiId) = Some client
               \<and> className ch = ''Channel'' \<and> \<not> megagroup ch
               \<and> p_getFullChannel P w client ch = (Inr fc, w')
               \<and> c = channel_of ch fc keyword
               \<and> ce_subscribers c = participants fc
               \<and> hasDiscussion fc)" .
  qed
next
  show "\<forall>client keyword ch fc a seen io io1.
         className ch = ''Channel'' \<and> \<not> megagroup ch \<and> chat_id ch \<notin> seen
         \<and> getFullChannel P client ch io = (Inr fc, io1)
       \<longrightarrow> fst (process_chat P client minSubscribers maxSubscribers keyword ch a seen io)
             = (if minSubscribers \<le> participants fc \<and> participants fc \<le> maxSubscribers
                   \<and> hasDiscussion fc
                then a @ [channel_of ch fc keyword] else a)"
    using process_chat_accepts by blast
qed

text \<open>
  With both bounds equal to the subscriber count 2500 the channel is returned; with the
  minimum one above or the maximum one below the count it is not.
\<close>

theorem search_channels_filter_witness:
  "fst (search_channels demo (Array [''x'']) 2500 2500 ''1'' ''p'' demo_server)
     = SearchOk True
         [\<lparr>ce_id = ''2'', ce_name = ''T'', ce_username = None, ce_subscribers = 2500,
           ce_description = [], ce_verified = False, ce_keyword = ''x'', ce_hasComments = True\<rparr>] 1
   \<and> fst (search_channels demo (Array [''x'']) 2501 5000 ''1'' ''p'' demo_server)
       = SearchOk True [] 0
   \<and> fst (search_channels demo (Array [''x'']) 1000 2499 ''1'' ''p'' demo_server)
       = SearchOk True [] 0
   \<and> (2500 :: int) \<le> ce_subscribers
         \<lparr>ce_id = ''2'', ce_name = ''T'', ce_username = None, ce_subscribers = 2500,
           ce_description = [], ce_verified = False, ce_keyword = ''x'', ce_hasComments = True\<rparr>"
proof -
  let ?c = "\<lparr>ce_id = ''2'', ce_name = ''T'', ce_username = None, ce_subscribers = 2500,
           ce_description = [], ce_verified = False, ce_keyword = ''x'', ce_hasComments = True\<rparr>"
  have lo: "fst (search_channels demo (Array [''x'']) 2501 5000 ''1'' ''p'' demo_server)
       = SearchOk True [] 0"
    by (simp add: demo_eval search_eval)
  have hi: "fst (search_channels demo (Array [''x'']) 1000 2499 ''1'' ''p'' demo_server)
       = SearchOk True [] 0"
    by (simp add: demo_eval search_eval)
  have m: "?c \<in> set [?c]" by simp
  from search_channels_filter
         [of demo "Array [''x'']" 2500 2500 "''1''" "''p''" demo_server]
  have "2500 \<le> ce_subscribers ?c"
    using demo_search_boundary m by blast
  with demo_search_boundary lo hi show ?thesis by simp
qed

text \<open>
  C8. With a minimum above the maximum, a search request on a connected session with a
  non-empty keyword list is answered with success, an empty channel list and total 0.
\<close>

theorem search_channels_inverted_bounds:
  assumes "minSubscribers > maxSubscribers"
    and "keywords = Array ks" and "ks \<noteq> []"
    and "sessions s (sessionKey phoneNumber apiId) = Some client" and "connected client"
  shows "fst (search_channels P keywords minSubscribers maxSubscribers apiId phoneNumber s)
           = SearchOk True [] 0"
proof -
  let ?I = "\<lambda>a (seen :: string set). a = ([] :: channel_entry list)"
  obtain a seen io' where
    loop: "keywords_loop P client minSubscribers maxSubscribers ks [] {} (env s) = (a, seen, io')"
    by (cases "keywords_loop P client minSubscribers maxSubscribers ks [] {} (env s)") auto
  have "?I a seen"
  proof (rule keywords_loop_invariant [where I = ?I, OF _ _ loop])
    show "?I [] {}" by simp
  next
    fix k ch a sn io a1 seen1 io1
    assume inv: "?I a sn"
      and one: "process_chat P client minSubscribers maxSubscribers k ch a sn io = (a1, seen1, io1)"
    from process_chat_cases [OF one] inv assms(1) show "?I a1 seen1"
      by auto
  qed
  with loop assms(2-5) show ?thesis
    by (simp add: search_channels_def)
qed

theorem search_channels_inverted_bounds_witness:
  "(5000 :: int) > 1000 \<and> sessions demo_server (sessionKey ''p'' ''1'') = Some demo_client
   \<and> connected demo_client
   \<and> fst (search_channels demo (Array [''x'', ''y'']) 5000 1000 ''1'' ''p'' demo_server)
       = SearchOk True [] 0"
proof -
  have b: "(5000 :: int) > 1000" by simp
  have k: "[''x'', ''y''] \<noteq> []" by simp
  from search_channels_inverted_bounds [OF b refl k demo_session demo_connected, of demo]
  show ?thesis using demo_session demo_connected by simp
qed






subsection \<open>The comment loop\<close>

lemma while_loop_returns:
  assumes "while_loop active channelLinks io = Some r"
  shows "active \<longrightarrow> channelLinks \<noteq> []"
proof (rule while_loop.raw_induct
        [where P = "\<lambda>active channelLinks io r. active \<longrightarrow> channelLinks \<noteq> []", OF _ assms])
  fix f :: "bool \<Rightarrow> string list \<Rightarrow> 'a io \<Rightarrow> (pc \<times> 'a io) option"
    and active channelLinks io r
  assume ih: "\<And>a l i y. f a l i = Some y \<Longrightarrow> a \<longrightarrow> l \<noteq> []"
    and eq: "(if active then
               (case for_head active channelLinks io of
                  Suspend r \<Rightarrow> Some r
                | Finished \<Rightarrow> f active channelLinks io)
             else Some (Done, io)) = Some r"
  show "active \<longrightarrow> channelLinks \<noteq> []"
  proof
    assume act: "active"
    show "channelLinks \<noteq> []"
    proof
      assume "channelLinks = []"
      with act eq have "f active channelLinks io = Some r"
        by (simp add: for_head_def)
      from ih [OF this] act \<open>channelLinks = []\<close> show False by simp
    qed
  qed
qed

lemma while_loop_eq:
  "while_loop active channelLinks io =
     (if active then
        (case channelLinks of
           [] \<Rightarrow> None
         | link # rest \<Rightarrow> Some (AwaitEntity link rest, issue (EvGetEntity (username_of link)) io))
      else Some (Done, io))"
proof (cases active)
  case False
  then show ?thesis by (simp add: while_loop.simps)
next
  case True
  show ?thesis
  proof (cases channelLinks)
    case Nil
    have "while_loop True [] io = None"
      using while_loop_returns [of True "[]" io] by (cases "while_loop True [] io") auto
    with True Nil show ?thesis by simp
  next
    case (Cons link rest)
    with True show ?thesis
      by (subst while_loop.simps) (simp add: for_head_def)
  qed
qed

lemmas loop_eval =
  resume_def start_sleep_def issue_def for_head_def while_loop_eq username_of_def

lemma resume_in_channel:
  assumes "stage (l_pc l) \<ge> 2"
  shows "\<exists>pc' io'. resume P active l io = Some (pc', io')
           \<and> links_left pc' = links_left (l_pc l)
           \<and> 1 \<le> stage pc' \<and> stage pc' < stage (l_pc l)
           \<and> (\<exists>e. snd io' = snd io @ [e]
                  \<and> (is_sleep e \<longleftrightarrow> stage pc' = 1)
                  \<and> (stage pc' = 1 \<longrightarrow> e = EvSleep (l_interval l * 1000))
                  \<and> (is_send e \<longleftrightarrow> stage pc' = 2))"
  using assms
  by (cases "l_pc l")
     (auto simp: resume_def start_sleep_def issue_def split: prod.splits sum.splits list.splits)

lemma resume_stopped_sleep:
  assumes "l_pc l = AwaitSleep rest"
  shows "resume P False l io = Some (Done, (p_elapse P (fst io) (l_interval l * 1000), snd io))"
  using assms by (simp add: resume_def for_head_def while_loop_eq Let_def split: list.splits)

lemma resume_done: "l_pc l = Done \<Longrightarrow> resume P active l io = Some (Done, io)"
  by (simp add: resume_def)

lemma resume_stopped:
  "\<exists>pc' io' evs. resume P False l io = Some (pc', io') \<and> snd io' = snd io @ evs
      \<and> stage pc' \<le> stage (l_pc l) - 1
      \<and> length (filter is_send evs) + may_send pc' \<le> may_send (l_pc l)
      \<and> length (filter is_sleep evs) + may_sleep pc' \<le> may_sleep (l_pc l)"
proof -
  consider "stage (l_pc l) \<ge> 2" | rest where "l_pc l = AwaitSleep rest" | "l_pc l = Done"
    by (cases "l_pc l") auto
  then show ?thesis
  proof cases
    case 1
    from resume_in_channel [OF 1, of P False io]
    obtain pc' io' e where r: "resume P False l io = Some (pc', io')"
      and st: "1 \<le> stage pc'" "stage pc' < stage (l_pc l)"
      and e: "snd io' = snd io @ [e]" "is_sleep e \<longleftrightarrow> stage pc' = 1" "is_send e \<longleftrightarrow> stage pc' = 2"
      by blast
    have "length (filter is_send [e]) + may_send pc' \<le> may_send (l_pc l)"
      using st e 1 by (auto simp: may_send_def)
    moreover have "length (filter is_sleep [e]) + may_sleep pc' \<le> may_sleep (l_pc l)"
      using st e 1 by (auto simp: may_sleep_def)
    moreover have "stage pc' \<le> stage (l_pc l) - 1" using st by simp
    ultimately show ?thesis using r e(1) by blast
  next
    case 2
    show ?thesis
      using resume_stopped_sleep [OF 2, of P io] 2
      by (simp add: may_send_def may_sleep_def)
  next
    case 3
    show ?thesis
      using resume_done [OF 3, of P False io] 3
      by (simp add: may_send_def may_sleep_def)
  qed
qed

lemma drain_bound:
  "\<exists>l' io' evs. drain P n l io = Some (l', io') \<and> snd io' = snd io @ evs
      \<and> stage (l_pc l') \<le> stage (l_pc l) - n
      \<and> length (filter is_send evs) + may_send (l_pc l') \<le> may_send (l_pc l)
      \<and> length (filter is_sleep evs) + may_sleep (l_pc l') \<le> may_sleep (l_pc l)"
proof (induction n arbitrary: l io)
  case 0
  show ?case by simp
next
  case (Suc n)
  from resume_stopped [of P l io]
  obtain pc' io1 evs1 where r: "resume P False l io = Some (pc', io1)"
    and t1: "snd io1 = snd io @ evs1"
    and s1: "stage pc' \<le> stage (l_pc l) - 1"
    and c1: "length (filter is_send evs1) + may_send pc' \<le> may_send (l_pc l)"
    and d1: "length (filter is_sleep evs1) + may_sleep pc' \<le> may_sleep (l_pc l)"
    by blast
  from Suc.IH [of "l\<lparr>l_pc := pc'\<rparr>" io1]
  obtain l' io' evs2 where dr: "drain P n (l\<lparr>l_pc := pc'\<rparr>) io1 = Some (l', io')"
    and t2: "snd io' = snd io1 @ evs2"
    and s2: "stage (l_pc l') \<le> stage pc' - n"
    and c2: "length (filter is_send evs2) + may_send (l_pc l') \<le> may_send pc'"
    and d2: "length (filter is_sleep evs2) + may_sleep (l_pc l') \<le> may_sleep pc'"
    by auto
  have "drain P (Suc n) l io = Some (l', io')" using r dr by simp
  moreover have "snd io' = snd io @ (evs1 @ evs2)" using t1 t2 by simp
  moreover have "stage (l_pc l') \<le> stage (l_pc l) - Suc n" using s1 s2 by simp
  moreover have "length (filter is_send (evs1 @ evs2)) + may_send (l_pc l') \<le> may_send (l_pc l)"
    using c1 c2 by simp
  moreover have "length (filter is_sleep (evs1 @ evs2)) + may_sleep (l_pc l') \<le> may_sleep (l_pc l)"
    using d1 d2 by simp
  ultimately show ?case by blast
qed

lemma stage_le_4: "stage p \<le> 4"
  by (cases p) simp_all

lemma stage_0: "stage p = 0 \<longleftrightarrow> p = Done"
  by (cases p) simp_all

lemma run_resumes_drain:
  assumes "\<not> commentingActive s" and "i < length (loops s)"
    and "drain P n (loops s ! i) (env s) = Some (l', io')"
  shows "run P (replicate n (Resume i)) s = Some (s\<lparr>loops := (loops s)[i := l'], env := io'\<rparr>)"
  using assms
proof (induction n arbitrary: s)
  case 0
  then have "loops s ! i = l'" and "env s = io'" by simp_all
  then have "s\<lparr>loops := (loops s)[i := l'], env := io'\<rparr> = s"
    by (metis list_update_id server.surjective server.update_convs(3) server.update_convs(4))
  then show ?case by simp
next
  case (Suc n)
  from Suc.prems(3) obtain pc1 io1 where
    r: "resume P False (loops s ! i) (env s) = Some (pc1, io1)"
    and d: "drain P n ((loops s ! i)\<lparr>l_pc := pc1\<rparr>) io1 = Some (l', io')"
    by (auto split: option.splits)
  let ?s1 = "s\<lparr>loops := (loops s)[i := (loops s ! i)\<lparr>l_pc := pc1\<rparr>], env := io1\<rparr>"
  have st: "step P (Resume i) s = Some ?s1"
    using Suc.prems(1,2) r by (simp add: step_def resume_loop_def)
  have a: "\<not> commentingActive ?s1" using Suc.prems(1) by simp
  have b: "i < length (loops ?s1)" using Suc.prems(2) by simp
  have c: "drain P n (loops ?s1 ! i) (env ?s1) = Some (l', io')"
    using d Suc.prems(2) by simp
  from Suc.IH [OF a b c] st show ?case by simp
qed

lemma stop_then_drain:
  fixes P :: "'w protocol" and s :: "'w server"
  assumes "i < length (loops s)"
  shows "\<exists>s' evs.
           run P [Request StopCommenting, Resume i, Resume i, Resume i, Resume i] s = Some s'
           \<and> \<not> commentingActive s' \<and> l_pc (loops s' ! i) = Done
           \<and> snd (env s') = snd (env s) @ evs
           \<and> length (filter is_send evs) \<le> 1 \<and> length (filter is_sleep evs) \<le> 1"
proof -
  let ?s0 = "s\<lparr>commentingActive := False\<rparr>"
  have st: "step P (Request StopCommenting) s = Some ?s0"
    by (simp add: step_def handle_def stop_commenting_def)
  from drain_bound [of P 4 "loops ?s0 ! i" "env ?s0"]
  obtain l' io' evs where dr: "drain P 4 (loops ?s0 ! i) (env ?s0) = Some (l', io')"
    and t: "snd io' = snd (env ?s0) @ evs"
    and sg: "stage (l_pc l') \<le> stage (l_pc (loops ?s0 ! i)) - 4"
    and c: "length (filter is_send evs) + may_send (l_pc l') \<le> may_send (l_pc (loops ?s0 ! i))"
    and d: "length (filter is_sleep evs) + may_sleep (l_pc l') \<le> may_sleep (l_pc (loops ?s0 ! i))"
    by blast
  have "stage (l_pc l') = 0" using sg stage_le_4 [of "l_pc (loops ?s0 ! i)"] by simp
  then have dn: "l_pc l' = Done" by (simp add: stage_0)
  have c1: "length (filter is_send evs) \<le> 1"
    using c by (simp add: may_send_def split: if_splits)
  have d1: "length (filter is_sleep evs) \<le> 1"
    using d by (simp add: may_sleep_def split: if_splits)
  have a: "\<not> commentingActive ?s0" by simp
  have b: "i < length (loops ?s0)" using assms by simp
  have "run P (replicate 4 (Resume i)) ?s0
          = Some (?s0\<lparr>loops := (loops ?s0)[i := l'], env := io'\<rparr>)"
    using run_resumes_drain [OF a b dr] .
  then have "run P [Request StopCommenting, Resume i, Resume i, Resume i, Resume i] s
          = Some (?s0\<lparr>loops := (loops ?s0)[i := l'], env := io'\<rparr>)"
    using st by (simp add: numeral_eq_Suc)
  moreover have "l_pc (loops (?s0\<lparr>loops := (loops ?s0)[i := l'], env := io'\<rparr>) ! i) = Done"
    using assms dn by simp
  moreover have "snd (env (?s0\<lparr>loops := (loops ?s0)[i := l'], env := io'\<rparr>)) = snd (env s) @ evs"
    using t by simp
  ultimately show ?thesis using c1 d1 by auto
qed

text \<open>
  C6. The comment loop tests the active flag at the head of every iteration over the links.
  Once the flag is false, a loop that resumes from its sleep ends at once without another
  call; a loop suspended anywhere ends after at most four resumptions, in which it issues at
  most one more send (the one of a channel already past the test) and starts at most one more
  sleep. At every await of a channel, whatever the awaited call returns or throws, the loop
  moves on within the same channel and reaches the sleep of interval * 1000 milliseconds. For
  the process: from any state, a stop request followed by four resumptions of a loop leaves
  the flag false and that loop ended, with at most one send and one sleep in between.
  Time is counted in sleeps started; how long the remote calls take is not modelled.
\<close>

theorem comment_loop_stops_promptly:
  fixes P :: "'w protocol"
  shows
  "(\<forall>rest (io :: 'w io). for_head False rest io = Finished)
   \<and> (\<forall>l rest io. l_pc l = AwaitSleep rest \<longrightarrow>
         resume P False l io
           = Some (Done, (p_elapse P (fst io) (l_interval l * 1000), snd io)))
   \<and> (\<forall>l io. \<exists>l' io' evs.
         drain P 4 l io = Some (l', io') \<and> l_pc l' = Done \<and> snd io' = snd io @ evs
         \<and> length (filter is_send evs) \<le> 1 \<and> length (filter is_sleep evs) \<le> 1)
   \<and> (\<forall>active l io. stage (l_pc l) \<ge> 2 \<longrightarrow>
         (\<exists>pc' io' e. resume P active l io = Some (pc', io') \<and> snd io' = snd io @ [e]
            \<and> links_left pc' = links_left (l_pc l)
            \<and> 1 \<le> stage pc' \<and> stage pc' < stage (l_pc l)
            \<and> (stage pc' = 1 \<longrightarrow> e = EvSleep (l_interval l * 1000))))
   \<and> (\<forall>(s :: 'w server) i. i < length (loops s) \<longrightarrow>
         (\<exists>s' evs.
            run P [Request StopCommenting, Resume i, Resume i, Resume i, Resume i] s = Some s'
            \<and> \<not> commentingActive s' \<and> l_pc (loops s' ! i) = Done
            \<and> snd (env s') = snd (env s) @ evs
            \<and> length (filter is_send evs) \<le> 1 \<and> length (filter is_sleep evs) \<le> 1))"
proof (intro conjI allI impI)
  fix rest and io :: "'w io"
  show "for_head False rest io = Finished"
    by (simp add: for_head_def split: list.splits)
next
  fix l :: loop and rest and io :: "'w io"
  assume "l_pc l = AwaitSleep rest"
  then show "resume P False l io
           = Some (Done, (p_elapse P (fst io) (l_interval l * 1000), snd io))"
    by (rule resume_stopped_sleep)
next
  fix l :: loop and io :: "'w io"
  from drain_bound [of P 4 l io]
  obtain l' io' evs where dr: "drain P 4 l io = Some (l', io')"
    and t: "snd io' = snd io @ evs"
    and s: "stage (l_pc l') \<le> stage (l_pc l) - 4"
    and c: "length (filter is_send evs) + may_send (l_pc l') \<le> may_send (l_pc l)"
    and d: "length (filter is_sleep evs) + may_sleep (l_pc l') \<le> may_sleep (l_pc l)"
    by blast
  have "stage (l_pc l') = 0" using s stage_le_4 [of "l_pc l"] by simp
  then have "l_pc l' = Done" by (simp add: stage_0)
  moreover have "length (filter is_send evs) \<le> 1"
    using c by (simp add: may_send_def split: if_splits)
  moreover have "length (filter is_sleep evs) \<le> 1"
    using d by (simp add: may_sleep_def split: if_splits)
  ultimately show "\<exists>l' io' evs.
         drain P 4 l io = Some (l', io') \<and> l_pc l' = Done \<and> snd io' = snd io @ evs
         \<and> length (filter is_send evs) \<le> 1 \<and> length (filter is_sleep evs) \<le> 1"
    using dr t by blast
next
  fix active and l :: loop and io :: "'w io"
  assume "2 \<le> stage (l_pc l)"
  from resume_in_channel [OF this, of P active io]
  show "\<exists>pc' io' e. resume P active l io = Some (pc', io') \<and> snd io' = snd io @ [e]
            \<and> links_left pc' = links_left (l_pc l)
            \<and> 1 \<le> stage pc' \<and> stage pc' < stage (l_pc l)
            \<and> (stage pc' = 1 \<longrightarrow> e = EvSleep (l_interval l * 1000))"
    by blast
next
  fix s :: "'w server" and i
  assume "i < length (loops s)"
  then show "\<exists>s' evs.
            run P [Request StopCommenting, Resume i, Resume i, Resume i, Resume i] s = Some s'
            \<and> \<not> commentingActive s' \<and> l_pc (loops s' ! i) = Done
            \<and> snd (env s') = snd (env s) @ evs
            \<and> length (filter is_send evs) \<le> 1 \<and> length (filter is_sleep evs) \<le> 1"
    by (rule stop_then_drain)
qed

theorem comment_loop_stops_promptly_witness:
  "l_pc (demo_loop (AwaitSleep [''b''])) = AwaitSleep [''b'']
   \<and> resume demo False (demo_loop (AwaitSleep [''b''])) ((), []) = Some (Done, ((), []))
   \<and> stage (l_pc (demo_loop (AwaitEntity ''a'' [''b'']))) \<ge> 2
   \<and> resume demo True (demo_loop (AwaitSend ''a'' (Entity ''a'') 7 [''b''])) ((), [])
       = Some (AwaitSleep [''b''], ((), [EvSleep 60000]))
   \<and> drain demo 4 (demo_loop (AwaitEntity ''a'' [''b''])) ((), [])
       = Some (demo_loop Done,
               ((), [EvGetMessages (Entity ''a'') 5, EvSendMessage (Entity ''a'') ''hi'' 7,
                     EvSleep 60000]))"
proof -
  have p: "l_pc (demo_loop (AwaitSleep [''b''])) = AwaitSleep [''b'']"
    by (simp add: demo_loop_def)
  have a: "resume demo False (demo_loop (AwaitSleep [''b''])) ((), []) = Some (Done, ((), []))"
    using comment_loop_stops_promptly
            [of demo, THEN conjunct2, THEN conjunct1, rule_format, OF p, of "((), [])"]
    by (simp add: demo_eval)
  have b: "stage (l_pc (demo_loop (AwaitEntity ''a'' [''b'']))) \<ge> 2"
    by (simp add: demo_loop_def)
  have c: "resume demo True (demo_loop (AwaitSend ''a'' (Entity ''a'') 7 [''b''])) ((), [])
       = Some (AwaitSleep [''b''], ((), [EvSleep 60000]))"
    by (simp add: demo_loop_def demo_eval loop_eval)
  have d: "drain demo 4 (demo_loop (AwaitEntity ''a'' [''b''])) ((), [])
       = Some (demo_loop Done,
               ((), [EvGetMessages (Entity ''a'') 5, EvSendMessage (Entity ''a'') ''hi'' 7,
                     EvSleep 60000]))"
    by (simp add: numeral_eq_Suc demo_loop_def demo_eval loop_eval)
  from p a b c d show ?thesis by blast
qed

subsection \<open>Concurrent comment loops\<close>

lemma connect_loops: "loops (snd (connect P apiId apiHash phoneNumber code password s)) = loops s"
  by (simp add: connect_def Let_def split: option.splits prod.splits sum.splits)

lemma search_channels_loops:
  "loops (snd (search_channels P keywords lo hi apiId phoneNumber s)) = loops s"
  by (simp add: search_channels_def split: option.splits prod.splits)

lemma subscribe_loops: "loops (snd (subscribe P channelLinks apiId phoneNumber s)) = loops s"
  by (simp add: subscribe_def split: option.splits prod.splits)

lemma comment_loops:
  assumes "comment P channelLinks commentText interval apiId phoneNumber s = Some (r, s')"
  shows "loops s' = loops s \<or> (\<exists>l. loops s' = loops s @ [l])"
  using assms
  by (auto simp: comment_def Let_def split: option.splits if_splits prod.splits)

lemma comment_starts:
  assumes "sessions s (sessionKey phoneNumber apiId) = Some client" and "connected client"
    and "channelLinks \<noteq> []"
  shows "\<exists>r s'. comment P channelLinks commentText interval apiId phoneNumber s = Some (r, s')
           \<and> commentingActive s' \<and> running s' = running s + 1"
  using assms
  by (cases channelLinks) (simp_all add: comment_def while_loop_eq running_def)

lemma comment_hangs:
  assumes "sessions s (sessionKey phoneNumber apiId) = Some client" and "connected client"
  shows "comment P [] commentText interval apiId phoneNumber s = None"
  using assms by (simp add: comment_def while_loop_eq)

lemma filter_update_le:
  assumes "i < length xs" and "Q y \<longrightarrow> Q (xs ! i)"
  shows "length (filter Q (xs[i := y])) \<le> length (filter Q xs)"
  using assms
proof (induction xs arbitrary: i)
  case Nil
  then show ?case by simp
next
  case (Cons x xs)
  then show ?case by (cases i) auto
qed

lemma resume_not_revived:
  "resume P active l io = Some (pc', io') \<Longrightarrow> pc' \<noteq> Done \<Longrightarrow> l_pc l \<noteq> Done"
  by (auto simp: resume_def)

lemma resume_loop_running:
  assumes "resume_loop P i s = Some s'"
  shows "running s' \<le> running s"
proof (cases "i < length (loops s)")
  case False
  with assms show ?thesis by (simp add: resume_loop_def)
next
  case True
  then obtain pc' io' where r: "resume P (commentingActive s) (loops s ! i) (env s) = Some (pc', io')"
    and s': "s' = s\<lparr>loops := (loops s)[i := (loops s ! i)\<lparr>l_pc := pc'\<rparr>], env := io'\<rparr>"
    using assms by (auto simp: resume_loop_def split: option.splits)
  have "l_pc ((loops s ! i)\<lparr>l_pc := pc'\<rparr>) \<noteq> Done \<longrightarrow> l_pc (loops s ! i) \<noteq> Done"
    using resume_not_revived [OF r] by simp
  from filter_update_le [where Q = "\<lambda>l. l_pc l \<noteq> Done", OF True this]
  show ?thesis by (simp add: running_def s')
qed

lemma step_running:
  assumes "step P a s = Some s'" and "is_start a \<longrightarrow> running s = 0" and "running s \<le> 1"
  shows "running s' \<le> 1"
proof (cases a)
  case (Resume i)
  with assms(1) have "resume_loop P i s = Some s'" by (simp add: step_def)
  from resume_loop_running [OF this] assms(3) show ?thesis by simp
next
  case (Request r)
  show ?thesis
  proof (cases r)
    case (Connect apiId apiHash phoneNumber code password)
    with Request assms(1) have "loops s' = loops s"
      using connect_loops [of P apiId apiHash phoneNumber code password s]
      by (auto simp: step_def handle_def)
    with assms(3) show ?thesis by (simp add: running_def)
  next
    case (SearchChannels kws lo hi apiId phoneNumber)
    with Request assms(1) have "loops s' = loops s"
      using search_channels_loops [of P kws lo hi apiId phoneNumber s]
      by (auto simp: step_def handle_def)
    with assms(3) show ?thesis by (simp add: running_def)
  next
    case (Subscribe channelLinks apiId phoneNumber)
    with Request assms(1) have "loops s' = loops s"
      using subscribe_loops [of P channelLinks apiId phoneNumber s]
      by (auto simp: step_def handle_def)
    with assms(3) show ?thesis by (simp add: running_def)
  next
    case (Comment channelLinks commentText interval apiId phoneNumber)
    with Request assms(1) obtain resp where
      c: "comment P channelLinks commentText interval apiId phoneNumber s = Some (resp, s')"
      by (auto simp: step_def handle_def)
    from Comment Request assms(2) have idle: "running s = 0" by simp
    from comment_loops [OF c] idle show ?thesis
      by (auto simp: running_def)
  next
    case StopCommenting
    with Request assms(1) have "loops s' = loops s"
      by (auto simp: step_def handle_def stop_commenting_def)
    with assms(3) show ?thesis by (simp add: running_def)
  qed
qed

lemma run_running:
  assumes "running s \<le> 1" and "starts_when_idle P as s" and "run P as s = Some s'"
  shows "running s' \<le> 1"
  using assms
proof (induction as arbitrary: s)
  case Nil
  then show ?case by simp
next
  case (Cons a as)
  from Cons.prems(3) obtain s1 where st: "step P a s = Some s1" and rest: "run P as s1 = Some s'"
    by (auto split: option.splits)
  from Cons.prems(2) st have g: "is_start a \<longrightarrow> running s = 0" and g': "starts_when_idle P as s1"
    by simp_all
  have "running s1 \<le> 1" using step_running [OF st g Cons.prems(1)] .
  from Cons.IH [OF this g' rest] show ?case .
qed

text \<open>
  C2, as the handler has it. From the initial state, as long as every start request arrives
  while no loop is running, at most one comment loop is running in every state reached. The
  handler itself does not look for a running loop: on a connected session and a non-empty list
  of links a start request sets the flag and adds one more running loop to those already there.
\<close>

theorem single_flight_when_starts_are_idle:
  fixes P :: "'w protocol"
  shows
  "(\<forall>as (w :: 'w) s'. starts_when_idle P as (initial w) \<and> run P as (initial w) = Some s'
       \<longrightarrow> running s' \<le> 1)
   \<and> (\<forall>channelLinks commentText interval apiId phoneNumber (s :: 'w server) client.
         sessions s (sessionKey phoneNumber apiId) = Some client \<and> connected client
         \<and> channelLinks \<noteq> []
       \<longrightarrow> (\<exists>r s'. comment P channelLinks commentText interval apiId phoneNumber s = Some (r, s')
              \<and> commentingActive s' \<and> running s' = running s + 1))"
proof (intro conjI allI impI)
  fix as and w :: 'w and s'
  assume a: "starts_when_idle P as (initial w) \<and> run P as (initial w) = Some s'"
  have "running (initial w) \<le> 1" by (simp add: running_def initial_def)
  with a show "running s' \<le> 1" using run_running by blast
next
  fix channelLinks :: "string list"
    and commentText interval apiId phoneNumber and s :: "'w server" and client
  assume "sessions s (sessionKey phoneNumber apiId) = Some client \<and> connected client
         \<and> channelLinks \<noteq> []"
  then show "\<exists>r s'. comment P channelLinks commentText interval apiId phoneNumber s = Some (r, s')
              \<and> commentingActive s' \<and> running s' = running s + 1"
    using comment_starts by blast
qed

text \<open>
  C2 as stated fails: after a connect request and two start requests two loops are running.
\<close>

theorem two_comment_loops_running:
  "map_option running (run demo [demo_connect, demo_comment, demo_comment] (initial ())) = Some 2"
  by (simp add: demo_connect_def demo_comment_def demo_eval connect_eval run_eval loop_eval)

theorem single_flight_when_starts_are_idle_witness:
  "starts_when_idle demo
     [demo_connect, demo_comment, Request StopCommenting, Resume 0, Resume 0, Resume 0, Resume 0,
      demo_comment] (initial ())
   \<and> map_option running
        (run demo
           [demo_connect, demo_comment, Request StopCommenting, Resume 0, Resume 0, Resume 0,
            Resume 0, demo_comment] (initial ())) = Some 1
   \<and> sessions demo_server (sessionKey ''p'' ''1'') = Some demo_client \<and> connected demo_client
   \<and> map_option (\<lambda>rs. running (snd rs)) (comment demo [''a''] ''hi'' 60 ''1'' ''p'' demo_server)
       = Some (running demo_server + 1)"
proof -
  let ?as = "[demo_connect, demo_comment, Request StopCommenting, Resume 0, Resume 0, Resume 0,
              Resume 0, demo_comment]"
  have g: "starts_when_idle demo ?as (initial ())"
    by (simp add: demo_connect_def demo_comment_def demo_eval connect_eval run_eval loop_eval)
  have r: "map_option running (run demo ?as (initial ())) = Some 1"
    by (simp add: demo_connect_def demo_comment_def demo_eval connect_eval run_eval loop_eval)
  then obtain s' where s': "run demo ?as (initial ()) = Some s'" by auto
  have "running s' \<le> 1"
    using single_flight_when_starts_are_idle [of demo, THEN conjunct1, rule_format, of ?as "()" s']
      g s' by simp
  have ne: "[''a''] \<noteq> ([] :: string list)" by simp
  from single_flight_when_starts_are_idle
         [of demo, THEN conjunct2, rule_format, of demo_server "''p''" "''1''" demo_client "[''a'']"
            "''hi''" 60]
  have "\<exists>r s'. comment demo [''a''] ''hi'' 60 ''1'' ''p'' demo_server = Some (r, s')
              \<and> commentingActive s' \<and> running s' = running demo_server + 1"
    using demo_session demo_connected ne by simp
  then have c: "map_option (\<lambda>rs. running (snd rs)) (comment demo [''a''] ''hi'' 60 ''1'' ''p'' demo_server)
       = Some (running demo_server + 1)"
    by auto
  from g r c demo_session demo_connected show ?thesis by simp
qed

subsection \<open>The authentication handshake\<close>

lemma connect_registered:
  assumes "truthy apiId" "truthy apiHash" "truthy phoneNumber"
    and "sessions s (sessionKey (the phoneNumber) (the apiId)) = Some client"
  shows "(\<exists>sess. fst (connect P apiId apiHash phoneNumber code password s)
             = ConnectOk True ''Already connected'' sess
           \<or> (\<exists>err. fst (connect P apiId apiHash phoneNumber code password s) = Error 500 err))
         \<and> (snd (env (snd (connect P apiId apiHash phoneNumber code password s))) = snd (env s)
            \<or> snd (env (snd (connect P apiId apiHash phoneNumber code password s)))
                = snd (env s) @ [EvConnect])"
  using assms
  by (auto simp: connect_def connect_client_def Let_def split: prod.splits sum.splits)

lemma connect_code_sent:
  assumes "fst (connect P apiId apiHash phoneNumber code password s) = CodeSent a b m"
  shows "truthy apiId \<and> truthy apiHash \<and> truthy phoneNumber
         \<and> (\<exists>client. sessions (snd (connect P apiId apiHash phoneNumber code password s))
                          (sessionKey (the phoneNumber) (the apiId)) = Some client)"
  using assms
  by (auto simp: connect_def Let_def split: option.splits prod.splits sum.splits if_splits)

text \<open>
  C1. The claim is that a follow-up connect request carrying the code continues the handshake
  by signing in. The handler does not: once a first request without a code has been answered
  with needsCode, the client is registered under the key, so a second request for the same
  key takes the branch for an existing client, whatever code and password it carries. It is
  answered 'Already connected' with the stored session (or with status 500 when a reconnect
  fails), and the only call it can issue is a reconnect: no sign-in is attempted.
\<close>

theorem connect_followup_skips_sign_in:
  assumes "fst (connect P apiId apiHash phoneNumber None None s) = CodeSent True True m"
  shows "((\<exists>sess. fst (connect P apiId apiHash phoneNumber (Some code) password
                         (snd (connect P apiId apiHash phoneNumber None None s)))
                    = ConnectOk True ''Already connected'' sess)
          \<or> (\<exists>err. fst (connect P apiId apiHash phoneNumber (Some code) password
                          (snd (connect P apiId apiHash phoneNumber None None s)))
                    = Error 500 err))
         \<and> (snd (env (snd (connect P apiId apiHash phoneNumber (Some code) password
                             (snd (connect P apiId apiHash phoneNumber None None s)))))
               = snd (env (snd (connect P apiId apiHash phoneNumber None None s)))
            \<or> snd (env (snd (connect P apiId apiHash phoneNumber (Some code) password
                             (snd (connect P apiId apiHash phoneNumber None None s)))))
               = snd (env (snd (connect P apiId apiHash phoneNumber None None s))) @ [EvConnect])"
proof -
  let ?s1 = "snd (connect P apiId apiHash phoneNumber None None s)"
  from connect_code_sent [OF assms]
  obtain client where t: "truthy apiId" "truthy apiHash" "truthy phoneNumber"
    and reg: "sessions ?s1 (sessionKey (the phoneNumber) (the apiId)) = Some client"
    by blast
  from connect_registered [OF t reg, of P "Some code" password] show ?thesis by simp
qed

text \<open>
  On the concrete platform: the first request registers the client and asks for the code; the
  follow-up with the valid code 12345 is answered 'Already connected' with the empty session
  and issues no call, while the same request on a fresh server does sign in.
\<close>

theorem connect_followup_skips_sign_in_witness:
  "connect demo (Some ''1'') (Some ''h'') (Some ''p'') None None (initial ())
     = (CodeSent True True ''Verification code sent to your Telegram app'',
        \<lparr>sessions = [''p_1'' \<mapsto> \<lparr>connected = True, session = []\<rparr>], commentingActive = False,
          loops = [], env = ((), [EvConnect, EvSendCode ''1'' ''h'' ''p''])\<rparr>)
   \<and> connect demo (Some ''1'') (Some ''h'') (Some ''p'') (Some ''12345'') None
        (snd (connect demo (Some ''1'') (Some ''h'') (Some ''p'') None None (initial ())))
     = (ConnectOk True ''Already connected'' [],
        \<lparr>sessions = [''p_1'' \<mapsto> \<lparr>connected = True, session = []\<rparr>], commentingActive = False,
          loops = [], env = ((), [EvConnect, EvSendCode ''1'' ''h'' ''p''])\<rparr>)
   \<and> connect demo (Some ''1'') (Some ''h'') (Some ''p'') (Some ''12345'') None (initial ())
     = (ConnectOk True ''Successfully connected to Telegram'' ''S'',
        \<lparr>sessions = [''p_1'' \<mapsto> \<lparr>connected = True, session = ''S''\<rparr>], commentingActive = False,
          loops = [], env = ((), [EvConnect, EvSignInUser ''1'' ''h'' ''p'' ''12345'' []])\<rparr>)"
proof -
  have first: "connect demo (Some ''1'') (Some ''h'') (Some ''p'') None None (initial ())
     = (CodeSent True True ''Verification code sent to your Telegram app'',
        \<lparr>sessions = [''p_1'' \<mapsto> \<lparr>connected = True, session = []\<rparr>], commentingActive = False,
          loops = [], env = ((), [EvConnect, EvSendCode ''1'' ''h'' ''p''])\<rparr>)"
    by (simp add: demo_eval connect_eval)
  then have f: "fst (connect demo (Some ''1'') (Some ''h'') (Some ''p'') None None (initial ()))
      = CodeSent True True ''Verification code sent to your Telegram app''"
    by simp
  have second: "connect demo (Some ''1'') (Some ''h'') (Some ''p'') (Some ''12345'') None
        (snd (connect demo (Some ''1'') (Some ''h'') (Some ''p'') None None (initial ())))
     = (ConnectOk True ''Already connected'' [],
        \<lparr>sessions = [''p_1'' \<mapsto> \<lparr>connected = True, session = []\<rparr>], commentingActive = False,
          loops = [], env = ((), [EvConnect, EvSendCode ''1'' ''h'' ''p''])\<rparr>)"
    using connect_followup_skips_sign_in [OF f, of "''12345''" None]
    by (simp add: first) (simp add: demo_eval connect_eval)
  have direct: "connect demo (Some ''1'') (Some ''h'') (Some ''p'') (Some ''12345'') None (initial ())
     = (ConnectOk True ''Successfully connected to Telegram'' ''S'',
        \<lparr>sessions = [''p_1'' \<mapsto> \<lparr>connected = True, session = ''S''\<rparr>], commentingActive = False,
          loops = [], env = ((), [EvConnect, EvSignInUser ''1'' ''h'' ''p'' ''12345'' []])\<rparr>)"
    by (simp add: demo_eval connect_eval)
  from first second direct show ?thesis by blast
qed

end
